theory Spec2Isabelle
  imports Main
begin

section \<open>JavaScript values\<close>

text \<open>
  The tools compare and take apart untyped JavaScript values (\<^verbatim>\<open>unknown\<close>,
  \<^verbatim>\<open>utils.Result\<close>). A value is a primitive, an array or a plain object. An array
  carries its elements and its further own named properties: the \<^verbatim>\<open>Result\<close> of
  ethers and the mixed form of a filter specification are arrays with named properties.
  An object is the list of its own enumerable properties in creation order. Numbers are
  integers (no \<^verbatim>\<open>NaN\<close>, no fractions); symbols and bigints do not occur. A function
  is a value of its own, known by a name such as \<^verbatim>\<open>Array.prototype.values\<close>: functions
  occur as the members a value inherits from its prototype chain, which a property read
  \<^verbatim>\<open>v[k]\<close> finds when \<^verbatim>\<open>v\<close> has no own property \<^verbatim>\<open>k\<close>. The definitions
  carry the names of the source; the underscore that starts a private name
  (\<^verbatim>\<open>_orderedFilter\<close>) is left out.
\<close>

datatype jsval =
    JUndefined
  | JNull
  | JBool bool
  | JNum int
  | JStr string
  | JArr "jsval list" "(string \<times> jsval) list"
  | JObj "(string \<times> jsval) list"
  | JFun string

datatype jstype = TUndefined | TBoolean | TNumber | TString | TObject | TFunction

text \<open>\<^verbatim>\<open>typeof v\<close>: \<^verbatim>\<open>null\<close> and arrays are \<^verbatim>\<open>'object'\<close>.\<close>

fun typeof :: "jsval \<Rightarrow> jstype" where
  "typeof JUndefined = TUndefined"
| "typeof JNull = TObject"
| "typeof (JBool b) = TBoolean"
| "typeof (JNum n) = TNumber"
| "typeof (JStr s) = TString"
| "typeof (JArr es ps) = TObject"
| "typeof (JObj ps) = TObject"
| "typeof (JFun f) = TFunction"

text \<open>
  Every failure of the tools is a thrown exception; the model returns it as a value.
  The chai assertions are named after their messages.
\<close>

datatype error =
    TypeError
  | WrongOrderOfEvents
  | NotAllExpectedEventsFound
  | InconsistentIndexedProperties
  | InconsistentNamedProperties
  | InconsistentPropertyValue
  | InvalidAddress
  | FailedToFindAnyEvent
  | ExpectingSingleEvent
  | PropertyUndefined
  | MismatchedValue
  | External string

text \<open>The decimal name of an array index, as a property key.\<close>

function natToString :: "nat \<Rightarrow> string" where
  "natToString n =
     (if n < 10 then [char_of (48 + n)]
      else natToString (n div 10) @ [char_of (48 + n mod 10)])"
  by pat_completeness auto
termination
  by (relation "measure id") auto

text \<open>
  \<^verbatim>\<open>Object.getOwnPropertyNames(v)\<close>: it throws on \<^verbatim>\<open>null\<close> and
  \<^verbatim>\<open>undefined\<close>; an array has its indices, \<^verbatim>\<open>length\<close> and its named
  properties. The tools call it on values of type \<^verbatim>\<open>'object'\<close> only; the own
  properties of a function (\<^verbatim>\<open>length\<close>, \<^verbatim>\<open>name\<close>) are not modelled, and reading
  them is left to the runtime (see \<^verbatim>\<open>getProp\<close> below).
\<close>

fun getOwnPropertyNames :: "jsval \<Rightarrow> error + string list" where
  "getOwnPropertyNames JUndefined = Inl TypeError"
| "getOwnPropertyNames JNull = Inl TypeError"
| "getOwnPropertyNames (JBool b) = Inr []"
| "getOwnPropertyNames (JNum n) = Inr []"
| "getOwnPropertyNames (JStr s) = Inr (map natToString [0..<length s] @ [''length''])"
| "getOwnPropertyNames (JArr es ps) =
     Inr (map natToString [0..<length es] @ [''length''] @ map fst ps)"
| "getOwnPropertyNames (JObj ps) = Inr (map fst ps)"
| "getOwnPropertyNames (JFun f) = Inr []"

text \<open>
  \<^verbatim>\<open>v[k]\<close> for a string key \<^verbatim>\<open>k\<close> that is an own property of \<^verbatim>\<open>v\<close>, as
  \<^verbatim>\<open>isDeepEqual\<close> reads \<^verbatim>\<open>v1[key]\<close> for a \<^verbatim>\<open>key\<close> of
  \<^verbatim>\<open>Object.getOwnPropertyNames(v1)\<close>; reading a property of \<^verbatim>\<open>null\<close> or
  \<^verbatim>\<open>undefined\<close> throws. The read \<^verbatim>\<open>v[k]\<close> for any key, which goes on to the
  prototype chain, is \<^verbatim>\<open>getProp\<close> below.
\<close>

fun getOwnProp :: "jsval \<Rightarrow> string \<Rightarrow> error + jsval" where
  "getOwnProp JUndefined k = Inl TypeError"
| "getOwnProp JNull k = Inl TypeError"
| "getOwnProp (JBool b) k = Inr JUndefined"
| "getOwnProp (JNum n) k = Inr JUndefined"
| "getOwnProp (JFun f) k = Inr JUndefined"
| "getOwnProp (JStr s) k =
     Inr (case List.find (\<lambda>i. natToString i = k) [0..<length s] of
            Some i \<Rightarrow> JStr [s ! i]
          | None \<Rightarrow> if k = ''length'' then JNum (int (length s)) else JUndefined)"
| "getOwnProp (JArr es ps) k =
     Inr (case List.find (\<lambda>i. natToString i = k) [0..<length es] of
            Some i \<Rightarrow> es ! i
          | None \<Rightarrow>
              if k = ''length'' then JNum (int (length es))
              else (case map_of ps k of Some v \<Rightarrow> v | None \<Rightarrow> JUndefined))"
| "getOwnProp (JObj ps) k =
     Inr (case map_of ps k of Some v \<Rightarrow> v | None \<Rightarrow> JUndefined)"

text \<open>
  \<^verbatim>\<open>v[i]\<close> for a numeric index \<^verbatim>\<open>i\<close>. No prototype of JavaScript has a member
  named by an index, so this read finds own properties only.
\<close>

fun getIndex :: "jsval \<Rightarrow> nat \<Rightarrow> error + jsval" where
  "getIndex JUndefined i = Inl TypeError"
| "getIndex JNull i = Inl TypeError"
| "getIndex (JBool b) i = Inr JUndefined"
| "getIndex (JNum n) i = Inr JUndefined"
| "getIndex (JFun f) i = Inr JUndefined"
| "getIndex (JStr s) i = Inr (if i < length s then JStr [s ! i] else JUndefined)"
| "getIndex (JArr es ps) i = Inr (if i < length es then es ! i else JUndefined)"
| "getIndex (JObj ps) i =
     Inr (case map_of ps (natToString i) of Some v \<Rightarrow> v | None \<Rightarrow> JUndefined)"

text \<open>\<^verbatim>\<open>(v ?? null) === null\<close>.\<close>

definition isNullish :: "jsval \<Rightarrow> bool" where
  "isNullish v = (v = JUndefined \<or> v = JNull)"

text \<open>\<^verbatim>\<open>s.toUpperCase()\<close> on the ASCII letters of an address.\<close>

definition upperChar :: "char \<Rightarrow> char" where
  "upperChar c =
     (let n = (of_char c :: nat) in if 97 \<le> n \<and> n \<le> 122 then char_of (n - 32) else c)"

definition toUpperCase :: "string \<Rightarrow> string" where
  "toUpperCase s = map upperChar s"

section \<open>The value matcher\<close>

text \<open>
  \<^verbatim>\<open>isDeepEqual(v0, v1)\<close>. \<^verbatim>\<open>someNotEqual a0 a1\<close> is
  \<^verbatim>\<open>a0.some((value, i) => !isDeepEqual(value, a1[i]))\<close> and \<^verbatim>\<open>keysEqual\<close> is the
  loop \<^verbatim>\<open>for (const key of k0)\<close> over the properties of \<^verbatim>\<open>v0\<close>, where \<^verbatim>\<open>k1\<close>
  holds the members of the set \<^verbatim>\<open>s1\<close>. The loop walks the properties of \<^verbatim>\<open>v0\<close>
  themselves, so \<^verbatim>\<open>v0[key]\<close> is the value stored with \<^verbatim>\<open>key\<close>.
  A value of type \<^verbatim>\<open>'object'\<close> that is not an array reaches
  \<^verbatim>\<open>Object.getOwnPropertyNames\<close>, which throws on \<^verbatim>\<open>null\<close>.
\<close>

function isDeepEqual :: "jsval \<Rightarrow> jsval \<Rightarrow> error + bool"
  and someNotEqual :: "jsval list \<Rightarrow> jsval list \<Rightarrow> error + bool"
  and keysEqual :: "(string \<times> jsval) list \<Rightarrow> jsval \<Rightarrow> string list \<Rightarrow> error + bool"
where
  "isDeepEqual v0 v1 =
     (if typeof v0 \<noteq> typeof v1 then Inr False
      else if typeof v0 \<noteq> TObject then Inr (v0 = v1)
      else (case v0 of
              JArr a0 n0 \<Rightarrow>
                (case v1 of
                   JArr a1 n1 \<Rightarrow>
                     if length a0 = length a1
                     then (case someNotEqual a0 a1 of
                             Inl e \<Rightarrow> Inl e
                           | Inr b \<Rightarrow> Inr (\<not> b))
                     else Inr False
                 | _ \<Rightarrow> Inr False)
            | JObj p0 \<Rightarrow>
                (case getOwnPropertyNames v1 of
                   Inl e \<Rightarrow> Inl e
                 | Inr k1 \<Rightarrow>
                     if length p0 \<noteq> length k1 then Inr False
                     else keysEqual p0 v1 k1)
            | _ \<Rightarrow> Inl TypeError))"
| "someNotEqual [] a1 = Inr False"
| "someNotEqual (x # a0) a1 =
     (case isDeepEqual x (case a1 of [] \<Rightarrow> JUndefined | y # _ \<Rightarrow> y) of
        Inl e \<Rightarrow> Inl e
      | Inr eq \<Rightarrow> if \<not> eq then Inr True else someNotEqual a0 (tl a1))"
| "keysEqual [] v1 k1 = Inr True"
| "keysEqual ((key, x) # p0) v1 k1 =
     (if key \<notin> set k1 then Inr False
      else (case getOwnProp v1 key of
              Inl e \<Rightarrow> Inl e
            | Inr y \<Rightarrow>
                (case isDeepEqual x y of
                   Inl e \<Rightarrow> Inl e
                 | Inr eq \<Rightarrow> if \<not> eq then Inr False else keysEqual p0 v1 k1)))"
  by pat_completeness auto
termination
  by (relation "measure (\<lambda>x. case x of
        Inl (v0, v1) \<Rightarrow> size v0
      | Inr (Inl (a0, a1)) \<Rightarrow> size_list size a0
      | Inr (Inr (p0, v1, k1)) \<Rightarrow> size_list (size_prod (\<lambda>_. 0) size) p0)") auto

text \<open>
  \<^verbatim>\<open>_matchProperties(actual, expected)\<close> is
  \<^verbatim>\<open>!expected.some((value, index) => ...)\<close>; \<^verbatim>\<open>somePropertyDiffers\<close> is the
  \<^verbatim>\<open>some\<close>, from \<^verbatim>\<open>index\<close> on.
\<close>

fun somePropertyDiffers :: "jsval \<Rightarrow> jsval list \<Rightarrow> nat \<Rightarrow> error + bool" where
  "somePropertyDiffers actual [] index = Inr False"
| "somePropertyDiffers actual (v # expected) index =
     (if isNullish v then somePropertyDiffers actual expected (Suc index)
      else (case getIndex actual index of
              Inl e \<Rightarrow> Inl e
            | Inr a \<Rightarrow>
                (case isDeepEqual v a of
                   Inl e \<Rightarrow> Inl e
                 | Inr eq \<Rightarrow>
                     if \<not> eq then Inr True
                     else somePropertyDiffers actual expected (Suc index))))"

definition matchProperties :: "jsval \<Rightarrow> jsval list \<Rightarrow> error + bool" where
  "matchProperties actual expected =
     (case somePropertyDiffers actual expected 0 of
        Inl e \<Rightarrow> Inl e
      | Inr b \<Rightarrow> Inr (\<not> b))"

section \<open>Logs and filters\<close>

record log =
  log_address :: string
  log_topics :: "string list"
  log_data :: string

text \<open>
  An entry of \<^verbatim>\<open>filter.topics\<close>: \<^verbatim>\<open>null\<close>, a topic, or a list of alternatives
  (which \<^verbatim>\<open>!==\<close> never finds equal to a log's topic).
\<close>

datatype topic = TopicNull | TopicStr string | TopicAlt "string list"

record extendedEventFilter =
  filter_address :: "string option"
  filter_topics :: "topic list option"
  nonIndexed :: "jsval list option"
  decodeEventData :: "log \<Rightarrow> error + jsval"

text \<open>
  The loop of \<^verbatim>\<open>_matchTopics\<close> over the expected topics, the log's topics from
  position \<^verbatim>\<open>i\<close> on.
\<close>

fun topicsAgree :: "topic list \<Rightarrow> string list \<Rightarrow> bool" where
  "topicsAgree [] actualTopics = True"
| "topicsAgree (expectedTopic # rest) [] = False"
| "topicsAgree (expectedTopic # rest) (t # actualTopics) =
     (if expectedTopic \<noteq> TopicNull \<and> expectedTopic \<noteq> TopicStr t then False
      else topicsAgree rest actualTopics)"

definition matchTopics :: "log \<Rightarrow> extendedEventFilter \<Rightarrow> bool" where
  "matchTopics actual expected =
     (if (case filter_address expected of
            None \<Rightarrow> False
          | Some a \<Rightarrow> toUpperCase (log_address actual) \<noteq> toUpperCase a)
      then False
      else topicsAgree (case filter_topics expected of None \<Rightarrow> [] | Some ts \<Rightarrow> ts)
             (log_topics actual))"

section \<open>The ordered matcher\<close>

text \<open>
  The variables of \<^verbatim>\<open>_orderedFilter\<close>. \<^verbatim>\<open>positions\<close> is not a variable of the
  source: it records the index \<^verbatim>\<open>j\<close> of every \<^verbatim>\<open>result.push\<close>, so that the
  positions of the matched logs can be spoken about.
\<close>

record matchState =
  result :: "jsval list"
  resultAddr :: "string list"
  matched :: "bool list"
  prevActualIndex :: int
  positions :: "nat list"

definition initialState :: "nat \<Rightarrow> matchState" where
  "initialState n =
     \<lparr>result = [], resultAddr = [], matched = replicate n False,
      prevActualIndex = - 1, positions = []\<rparr>"

text \<open>\<^verbatim>\<open>expected.nonIndexed === undefined || _matchProperties(decoded, expected.nonIndexed)\<close>\<close>

definition propertiesOk :: "extendedEventFilter \<Rightarrow> jsval \<Rightarrow> error + bool" where
  "propertiesOk expected decoded =
     (case nonIndexed expected of
        None \<Rightarrow> Inr True
      | Some ni \<Rightarrow> matchProperties decoded ni)"

text \<open>
  The inner loop, from \<^verbatim>\<open>j\<close> on: \<^verbatim>\<open>Some (j, decoded)\<close> at the \<^verbatim>\<open>break\<close>,
  \<^verbatim>\<open>None\<close> when the loop runs out, an error when the decoder, the value matcher or
  the assertion \<^verbatim>\<open>expect(j, 'Wrong order of events').gt(prevActualIndex)\<close> throws.
\<close>

function scanLogs ::
  "log list \<Rightarrow> bool list \<Rightarrow> int \<Rightarrow> extendedEventFilter \<Rightarrow> nat \<Rightarrow> error + (nat \<times> jsval) option"
where
  "scanLogs actuals mflags prev expected j =
     (if j < length actuals then
        (if mflags ! j then scanLogs actuals mflags prev expected (Suc j)
         else if matchTopics (actuals ! j) expected then
           (case decodeEventData expected (actuals ! j) of
              Inl e \<Rightarrow> Inl e
            | Inr decoded \<Rightarrow>
                (case propertiesOk expected decoded of
                   Inl e \<Rightarrow> Inl e
                 | Inr ok \<Rightarrow>
                     if ok then
                       (if prev < int j then Inr (Some (j, decoded))
                        else Inl WrongOrderOfEvents)
                     else scanLogs actuals mflags prev expected (Suc j)))
         else scanLogs actuals mflags prev expected (Suc j))
      else Inr None)"
  by pat_completeness auto
termination
  by (relation "measure (\<lambda>(actuals, mflags, prev, expected, j). length actuals - j)") auto

text \<open>\<^verbatim>\<open>let j = forwardOnly ? prevActualIndex + 1 : 0\<close>\<close>

definition searchStart :: "bool \<Rightarrow> int \<Rightarrow> nat" where
  "searchStart forwardOnly prev = (if forwardOnly then nat (prev + 1) else 0)"

text \<open>The statements after a match, up to the \<^verbatim>\<open>break\<close>.\<close>

definition recordMatch :: "log list \<Rightarrow> matchState \<Rightarrow> nat \<Rightarrow> jsval \<Rightarrow> matchState" where
  "recordMatch actuals st j decoded =
     st\<lparr>prevActualIndex := int j,
        matched := (matched st)[j := True],
        result := result st @ [decoded],
        resultAddr := resultAddr st @ [log_address (actuals ! j)],
        positions := positions st @ [j]\<rparr>"

text \<open>The outer loop over the filters that are left.\<close>

fun orderedLoop ::
  "log list \<Rightarrow> bool \<Rightarrow> extendedEventFilter list \<Rightarrow> matchState \<Rightarrow> error + matchState"
where
  "orderedLoop actuals forwardOnly [] st = Inr st"
| "orderedLoop actuals forwardOnly (expected # rest) st =
     (case scanLogs actuals (matched st) (prevActualIndex st) expected
             (searchStart forwardOnly (prevActualIndex st)) of
        Inl e \<Rightarrow> Inl e
      | Inr None \<Rightarrow> orderedLoop actuals forwardOnly rest st
      | Inr (Some (j, decoded)) \<Rightarrow>
          orderedLoop actuals forwardOnly rest (recordMatch actuals st j decoded))"

text \<open>
  \<^verbatim>\<open>_orderedFilter\<close> up to its last assertion: the final state of a call that
  returns.
\<close>

definition orderedFilterState ::
  "log list \<Rightarrow> extendedEventFilter list \<Rightarrow> bool \<Rightarrow> error + matchState"
where
  "orderedFilterState actuals expecteds forwardOnly =
     (case orderedLoop actuals forwardOnly expecteds (initialState (length actuals)) of
        Inl e \<Rightarrow> Inl e
      | Inr st \<Rightarrow>
          if length (result st) = length expecteds then Inr st
          else Inl NotAllExpectedEventsFound)"

definition orderedFilter ::
  "log list \<Rightarrow> extendedEventFilter list \<Rightarrow> bool \<Rightarrow> error + (string list \<times> jsval list)"
where
  "orderedFilter actuals expecteds forwardOnly =
     (case orderedFilterState actuals expecteds forwardOnly of
        Inl e \<Rightarrow> Inl e
      | Inr st \<Rightarrow> Inr (resultAddr st, result st))"

text \<open>The exported entry points hand \<^verbatim>\<open>receipt.logs\<close> to \<^verbatim>\<open>_orderedFilter\<close>.\<close>

record contractReceipt =
  logs :: "log list"

definition expectEvents ::
  "contractReceipt \<Rightarrow> extendedEventFilter list \<Rightarrow> error + jsval list"
where
  "expectEvents receipt filters =
     (case orderedFilter (logs receipt) filters False of
        Inl e \<Rightarrow> Inl e
      | Inr (emitters, res) \<Rightarrow> Inr res)"

definition expectEmittersAndEvents ::
  "contractReceipt \<Rightarrow> bool \<Rightarrow> extendedEventFilter list \<Rightarrow> error + (string list \<times> jsval list)"
where
  "expectEmittersAndEvents receipt forwardOnly filters =
     orderedFilter (logs receipt) filters forwardOnly"

section \<open>The single-filter log decoder\<close>

type_synonym eventDataDecoder = "log \<Rightarrow> error + jsval"

text \<open>
  The body of the loop of \<^verbatim>\<open>filtersToDecoders\<close>:
  \<^verbatim>\<open>if (filter.address && filter.topics)\<close> skips a filter with no address (or the
  empty one) and one with no topics, \<^verbatim>\<open>typeof eventType === 'string'\<close> one whose
  first topic is missing or not a string.
\<close>

definition addDecoder ::
  "(string \<rightharpoonup> (string \<rightharpoonup> eventDataDecoder)) \<Rightarrow> extendedEventFilter \<Rightarrow>
   (string \<rightharpoonup> (string \<rightharpoonup> eventDataDecoder))"
where
  "addDecoder decoders flt =
     (case filter_address flt of
        None \<Rightarrow> decoders
      | Some a \<Rightarrow>
          if a = [] then decoders
          else (case filter_topics flt of
                  None \<Rightarrow> decoders
                | Some ts \<Rightarrow>
                    (case ts of
                       TopicStr eventType # _ \<Rightarrow>
                         (let addr = toUpperCase a;
                              subMap = (case decoders addr of
                                          None \<Rightarrow> Map.empty
                                        | Some m \<Rightarrow> m)
                          in decoders(addr \<mapsto> subMap(eventType \<mapsto> decodeEventData flt)))
                     | _ \<Rightarrow> decoders)))"

definition filtersToDecoders ::
  "extendedEventFilter list \<Rightarrow> (string \<rightharpoonup> (string \<rightharpoonup> eventDataDecoder))"
where
  "filtersToDecoders filters = foldl addDecoder Map.empty filters"

text \<open>\<^verbatim>\<open>entry.topics[0]\<close>, \<^verbatim>\<open>undefined\<close> for a log with no topics.\<close>

definition topic0 :: "log \<Rightarrow> string option" where
  "topic0 entry = (case log_topics entry of [] \<Rightarrow> None | t # _ \<Rightarrow> Some t)"

fun decodeEventLogs ::
  "log list \<Rightarrow> (string \<Rightarrow> string option \<Rightarrow> eventDataDecoder option) \<Rightarrow> error + jsval list"
where
  "decodeEventLogs [] decoderLookup = Inr []"
| "decodeEventLogs (entry # rest) decoderLookup =
     (case decoderLookup (toUpperCase (log_address entry)) (topic0 entry) of
        None \<Rightarrow> decodeEventLogs rest decoderLookup
      | Some decodeFn \<Rightarrow>
          (case decodeFn entry of
             Inl e \<Rightarrow> Inl e
           | Inr decoded \<Rightarrow>
               (case decodeEventLogs rest decoderLookup of
                  Inl e \<Rightarrow> Inl e
                | Inr found \<Rightarrow> Inr (decoded # found))))"

text \<open>\<^verbatim>\<open>decoders.get(emitter)?.get(topic)\<close>\<close>

definition lookupDecoder ::
  "(string \<rightharpoonup> (string \<rightharpoonup> eventDataDecoder)) \<Rightarrow> string \<Rightarrow> string option \<Rightarrow>
   eventDataDecoder option"
where
  "lookupDecoder decoders emitter topic =
     (case decoders emitter of
        None \<Rightarrow> None
      | Some m \<Rightarrow> (case topic of None \<Rightarrow> None | Some t \<Rightarrow> m t))"

definition filterEventFromLog :: "log list \<Rightarrow> extendedEventFilter \<Rightarrow> error + jsval list" where
  "filterEventFromLog entries flt =
     decodeEventLogs entries (lookupDecoder (filtersToDecoders [flt]))"

section \<open>The filter builder\<close>

text \<open>
  An input of an event fragment: its name (\<^verbatim>\<open>null\<close> when the parameter has none) and
  whether it is indexed. As a property key \<^verbatim>\<open>null\<close> reads \<^verbatim>\<open>'null'\<close>; in a
  condition \<^verbatim>\<open>null\<close> and the empty name are false.
\<close>

record paramType =
  param_name :: "string option"
  indexed :: bool

record eventFragment =
  fragment_name :: string
  inputs :: "paramType list"

definition nameKey :: "paramType \<Rightarrow> string" where
  "nameKey param = (case param_name param of None \<Rightarrow> ''null'' | Some n \<Rightarrow> n)"

definition hasName :: "paramType \<Rightarrow> bool" where
  "hasName param = (case param_name param of None \<Rightarrow> False | Some n \<Rightarrow> n \<noteq> [])"

text \<open>
  The \<^verbatim>\<open>utils.Interface\<close> of ethers is not part of the repository: its methods are
  fields, each returning an error where the library throws.
\<close>

record interface =
  getEvent :: "string \<Rightarrow> error + eventFragment"
  encodeFilterTopics :: "eventFragment \<Rightarrow> jsval list \<Rightarrow> error + topic list"
  decodeEventLog :: "eventFragment \<Rightarrow> string \<Rightarrow> string list \<Rightarrow> error + jsval"

text \<open>
  What else the tools take from their environment: \<^verbatim>\<open>utils.isAddress\<close>,
  \<^verbatim>\<open>utils.id(fragment.format())\<close>, the equality of chai's \<^verbatim>\<open>expect(a).eq(b)\<close>
  (strict equality, which plugins may widen), and the prototype chains of the JavaScript
  runtime: \<^verbatim>\<open>inherited v k\<close> is what \<^verbatim>\<open>v[k]\<close> yields when \<^verbatim>\<open>k\<close> is not an own
  property of \<^verbatim>\<open>v\<close>, such as the function \<^verbatim>\<open>Array.prototype.values\<close> for an array
  and the key \<^verbatim>\<open>values\<close>, and \<^verbatim>\<open>undefined\<close> when no prototype has the member.
\<close>

record library =
  isAddress :: "string \<Rightarrow> bool"
  topicId :: "eventFragment \<Rightarrow> string"
  chaiEq :: "jsval \<Rightarrow> jsval \<Rightarrow> bool"
  inherited :: "jsval \<Rightarrow> string \<Rightarrow> jsval"

text \<open>
  \<^verbatim>\<open>v[k]\<close> for a string key: the own property when \<^verbatim>\<open>v\<close> has one, else what
  the prototype chain yields; reading a property of \<^verbatim>\<open>null\<close> or
  \<^verbatim>\<open>undefined\<close> throws.
\<close>

definition getProp :: "library \<Rightarrow> jsval \<Rightarrow> string \<Rightarrow> error + jsval" where
  "getProp lib v k =
     (case getOwnPropertyNames v of
        Inl e \<Rightarrow> Inl e
      | Inr names \<Rightarrow> if k \<in> set names then getOwnProp v k else Inr (inherited lib v k))"

definition isArray :: "jsval \<Rightarrow> bool" where
  "isArray v = (case v of JArr es ps \<Rightarrow> True | _ \<Rightarrow> False)"

definition arrayLength :: "jsval \<Rightarrow> nat" where
  "arrayLength v = (case v of JArr es ps \<Rightarrow> length es | _ \<Rightarrow> 0)"

text \<open>
  The keys \<^verbatim>\<open>for (const key in properties)\<close> visits; the loop does not run for
  \<^verbatim>\<open>undefined\<close> and \<^verbatim>\<open>null\<close>. The members of the prototypes of JavaScript are
  not enumerable, so the loop visits own properties only.
\<close>

fun forInKeys :: "jsval \<Rightarrow> string list" where
  "forInKeys (JArr es ps) = map natToString [0..<length es] @ map fst ps"
| "forInKeys (JObj ps) = map fst ps"
| "forInKeys (JStr s) = map natToString [0..<length s]"
| "forInKeys v = []"

text \<open>
  \<^verbatim>\<open>isNaN(parseInt(key, 10))\<close>: \<^verbatim>\<open>parseInt\<close> skips leading white space and one
  sign, and gives \<^verbatim>\<open>NaN\<close> unless a digit follows.
\<close>

definition isWhiteSpace :: "char \<Rightarrow> bool" where
  "isWhiteSpace c = ((of_char c :: nat) \<in> {9, 10, 11, 12, 13, 32})"

definition isDigit :: "char \<Rightarrow> bool" where
  "isDigit c = (48 \<le> (of_char c :: nat) \<and> (of_char c :: nat) \<le> 57)"

definition isNaNparseInt :: "string \<Rightarrow> bool" where
  "isNaNparseInt key =
     (let s = dropWhile isWhiteSpace key;
          r = (case s of
                 [] \<Rightarrow> []
               | c # t \<Rightarrow> if c = CHR ''+'' \<or> c = CHR ''-'' then t else s)
      in case r of [] \<Rightarrow> True | c # t \<Rightarrow> \<not> isDigit c)"

record buildState =
  indexedArgs :: "jsval list"
  nonIndexedArgs :: "jsval list"
  hasNonIndexed :: bool
  namedCount :: int

text \<open>The callback of \<^verbatim>\<open>fragment.inputs.forEach\<close> in \<^verbatim>\<open>_buildFilterArgs\<close>.\<close>

definition buildParam ::
  "library \<Rightarrow> jsval \<Rightarrow> paramType \<Rightarrow> nat \<Rightarrow> buildState \<Rightarrow> error + buildState"
where
  "buildParam lib properties param index st =
     (case getProp lib properties (nameKey param) of
        Inl e \<Rightarrow> Inl e
      | Inr named0 \<Rightarrow>
          (case (if isArray properties then getIndex properties index else Inr JNull) of
             Inl e \<Rightarrow> Inl e
           | Inr v0 \<Rightarrow>
               (let value0 = (if isNullish v0 then JNull else v0);
                    namedValue = (if named0 = JUndefined then JNull else named0);
                    cnt = (if named0 = JUndefined then namedCount st else namedCount st - 1)
                in if namedValue \<noteq> JNull \<and> value0 \<noteq> JNull \<and> \<not> chaiEq lib namedValue value0
                   then Inl InconsistentPropertyValue
                   else
                     (let v = (if namedValue \<noteq> JNull \<and> value0 = JNull then namedValue
                               else value0)
                      in if indexed param
                         then Inr (st\<lparr>indexedArgs := indexedArgs st @ [v],
                                      nonIndexedArgs := nonIndexedArgs st @ [JNull],
                                      namedCount := cnt\<rparr>)
                         else Inr (st\<lparr>indexedArgs := indexedArgs st @ [JNull],
                                      nonIndexedArgs := nonIndexedArgs st @ [v],
                                      hasNonIndexed := (hasNonIndexed st \<or> v \<noteq> JNull),
                                      namedCount := cnt\<rparr>)))))"

fun forEachParam ::
  "library \<Rightarrow> jsval \<Rightarrow> paramType list \<Rightarrow> nat \<Rightarrow> buildState \<Rightarrow> error + buildState"
where
  "forEachParam lib properties [] index st = Inr st"
| "forEachParam lib properties (param # rest) index st =
     (case buildParam lib properties param index st of
        Inl e \<Rightarrow> Inl e
      | Inr st' \<Rightarrow> forEachParam lib properties rest (Suc index) st')"

text \<open>
  \<^verbatim>\<open>_buildFilterArgs(fragment, properties)\<close>: the topic arguments and, when a
  non-indexed parameter got a value, the non-indexed constraints.
\<close>

definition buildFilterArgs ::
  "library \<Rightarrow> eventFragment \<Rightarrow> jsval \<Rightarrow> error + (jsval list \<times> jsval list option)"
where
  "buildFilterArgs lib fragment properties =
     (let arrayCount = (if isArray properties then arrayLength properties else 0)
      in if isArray properties \<and> length (inputs fragment) < arrayCount
         then Inl InconsistentIndexedProperties
         else
           (let named = int (length (filter
                  (\<lambda>key. \<not> isArray properties \<or> isNaNparseInt key) (forInKeys properties)))
            in if 0 < named \<or> 0 < arrayCount then
                 (case forEachParam lib properties (inputs fragment) 0
                         \<lparr>indexedArgs = [], nonIndexedArgs = [], hasNonIndexed = False,
                          namedCount = named\<rparr> of
                    Inl e \<Rightarrow> Inl e
                  | Inr st \<Rightarrow>
                      if namedCount st = 0
                      then Inr (indexedArgs st,
                                if hasNonIndexed st then Some (nonIndexedArgs st) else None)
                      else Inl InconsistentNamedProperties)
               else Inr ([], None)))"

definition newExtendedEventFilter ::
  "library \<Rightarrow> string \<Rightarrow> string \<Rightarrow> interface \<Rightarrow> jsval \<Rightarrow> error + extendedEventFilter"
where
  "newExtendedEventFilter lib eventName emitter decoder flt =
     (if emitter \<noteq> ''*'' \<and> \<not> isAddress lib emitter then Inl InvalidAddress
      else
        (case getEvent decoder eventName of
           Inl e \<Rightarrow> Inl e
         | Inr fragment \<Rightarrow>
             (case buildFilterArgs lib fragment flt of
                Inl e \<Rightarrow> Inl e
              | Inr (args, ni) \<Rightarrow>
                  (case encodeFilterTopics decoder fragment args of
                     Inl e \<Rightarrow> Inl e
                   | Inr ts \<Rightarrow>
                       Inr \<lparr>filter_address = (if emitter \<noteq> ''*'' then Some emitter else None),
                            filter_topics = Some ts,
                            nonIndexed = ni,
                            decodeEventData =
                              (\<lambda>l. decodeEventLog decoder fragment (log_data l) (log_topics l))\<rparr>))))"

section \<open>The event factory\<close>

record contract =
  contract_address :: string
  contract_interface :: interface

text \<open>The loop of \<^verbatim>\<open>findEventArgs\<close> over \<^verbatim>\<open>receipt.logs\<close>.\<close>

fun decodeMatching ::
  "interface \<Rightarrow> eventFragment \<Rightarrow> string \<Rightarrow> string \<Rightarrow> log list \<Rightarrow> error + jsval list"
where
  "decodeMatching parser fragment eid addr [] = Inr []"
| "decodeMatching parser fragment eid addr (entry # rest) =
     (if topic0 entry = Some eid \<and> toUpperCase (log_address entry) = addr then
        (case decodeEventLog parser fragment (log_data entry) (log_topics entry) of
           Inl e \<Rightarrow> Inl e
         | Inr parsed \<Rightarrow>
             (case decodeMatching parser fragment eid addr rest of
                Inl e \<Rightarrow> Inl e
              | Inr found \<Rightarrow> Inr (parsed # found)))
      else decodeMatching parser fragment eid addr rest)"

definition findEventArgs ::
  "library \<Rightarrow> string \<Rightarrow> contractReceipt \<Rightarrow> contract \<Rightarrow> error + jsval list"
where
  "findEventArgs lib n receipt emitter =
     (case getEvent (contract_interface emitter) n of
        Inl e \<Rightarrow> Inl e
      | Inr fragment \<Rightarrow>
          (case decodeMatching (contract_interface emitter) fragment (topicId lib fragment)
                  (toUpperCase (contract_address emitter)) (logs receipt) of
             Inl e \<Rightarrow> Inl e
           | Inr found \<Rightarrow>
               if 0 < length found then Inr found else Inl FailedToFindAnyEvent))"

text \<open>\<^verbatim>\<open>_verifyByFragment\<close>: the loop over the inputs, from \<^verbatim>\<open>index\<close> on.\<close>

fun verifyInputs :: "library \<Rightarrow> paramType list \<Rightarrow> nat \<Rightarrow> jsval \<Rightarrow> error + unit" where
  "verifyInputs lib [] index args = Inr ()"
| "verifyInputs lib (param # rest) index args =
     (case getIndex args index of
        Inl e \<Rightarrow> Inl e
      | Inr v \<Rightarrow>
          if v = JUndefined then Inl PropertyUndefined
          else if hasName param then
            (case getProp lib args (nameKey param) of
               Inl e \<Rightarrow> Inl e
             | Inr w \<Rightarrow>
                 if w = JUndefined then Inl PropertyUndefined
                 else verifyInputs lib rest (Suc index) args)
          else verifyInputs lib rest (Suc index) args)"

definition verifyByFragment :: "library \<Rightarrow> eventFragment \<Rightarrow> jsval \<Rightarrow> error + unit" where
  "verifyByFragment lib fragment args = verifyInputs lib (inputs fragment) 0 args"

text \<open>
  \<^verbatim>\<open>_verifyByProperties\<close>: first the elements of an expected array by index, then
  \<^verbatim>\<open>Object.entries(expected)\<close> by key.
\<close>

fun verifyElements :: "library \<Rightarrow> jsval list \<Rightarrow> nat \<Rightarrow> jsval \<Rightarrow> error + unit" where
  "verifyElements lib [] index args = Inr ()"
| "verifyElements lib (v # rest) index args =
     (if isNullish v then verifyElements lib rest (Suc index) args
      else (case getIndex args index of
              Inl e \<Rightarrow> Inl e
            | Inr a \<Rightarrow>
                if chaiEq lib a v then verifyElements lib rest (Suc index) args
                else Inl MismatchedValue))"

fun objectEntries :: "jsval \<Rightarrow> (string \<times> jsval) list" where
  "objectEntries (JArr es ps) = zip (map natToString [0..<length es]) es @ ps"
| "objectEntries (JObj ps) = ps"
| "objectEntries (JStr s) =
     zip (map natToString [0..<length s]) (map (\<lambda>c. JStr [c]) s)"
| "objectEntries v = []"

fun verifyEntries :: "library \<Rightarrow> (string \<times> jsval) list \<Rightarrow> jsval \<Rightarrow> error + unit" where
  "verifyEntries lib [] args = Inr ()"
| "verifyEntries lib ((propName, v) # rest) args =
     (if isNullish v then verifyEntries lib rest args
      else (case getProp lib args propName of
              Inl e \<Rightarrow> Inl e
            | Inr a \<Rightarrow>
                if chaiEq lib a v then verifyEntries lib rest args
                else Inl MismatchedValue))"

definition verifyByProperties :: "library \<Rightarrow> jsval \<Rightarrow> jsval \<Rightarrow> error + unit" where
  "verifyByProperties lib expected args =
     (case (case expected of
              JArr es ps \<Rightarrow> verifyElements lib es 0 args
            | _ \<Rightarrow> Inr ()) of
        Inl e \<Rightarrow> Inl e
      | Inr u \<Rightarrow> verifyEntries lib (objectEntries expected) args)"

text \<open>
  The methods of the class of \<^verbatim>\<open>wrapEventType(customName, emitter)\<close>;
  \<^verbatim>\<open>expected\<close> is \<^verbatim>\<open>undefined\<close> when the caller passes none.
\<close>

definition verifyArgs ::
  "library \<Rightarrow> string \<Rightarrow> contract \<Rightarrow> jsval \<Rightarrow> jsval \<Rightarrow> error + jsval"
where
  "verifyArgs lib customName emitter args expected =
     (case (if \<not> isNullish expected then verifyByProperties lib expected args else Inr ()) of
        Inl e \<Rightarrow> Inl e
      | Inr u \<Rightarrow>
          (case getEvent (contract_interface emitter) customName of
             Inl e \<Rightarrow> Inl e
           | Inr fragment \<Rightarrow>
               (case verifyByFragment lib fragment args of
                  Inl e \<Rightarrow> Inl e
                | Inr u' \<Rightarrow> Inr args)))"

definition expectOne ::
  "library \<Rightarrow> string \<Rightarrow> contract \<Rightarrow> contractReceipt \<Rightarrow> jsval \<Rightarrow> error + jsval"
where
  "expectOne lib customName emitter receipt expected =
     (case findEventArgs lib customName receipt emitter of
        Inl e \<Rightarrow> Inl e
      | Inr args \<Rightarrow>
          if length args \<noteq> 1 then Inl ExpectingSingleEvent
          else verifyArgs lib customName emitter (hd args) expected)"

text \<open>\<^verbatim>\<open>args.forEach((arg) => { this.verifyArgs(arg) })\<close>\<close>

fun verifyEach :: "library \<Rightarrow> string \<Rightarrow> contract \<Rightarrow> jsval list \<Rightarrow> error + unit" where
  "verifyEach lib customName emitter [] = Inr ()"
| "verifyEach lib customName emitter (arg # rest) =
     (case verifyArgs lib customName emitter arg JUndefined of
        Inl e \<Rightarrow> Inl e
      | Inr a \<Rightarrow> verifyEach lib customName emitter rest)"

text \<open>
  \<^verbatim>\<open>all(receipt, fn?)\<close> returns the decoded events, or what \<^verbatim>\<open>fn\<close> makes of
  them.
\<close>

datatype 'r allResult = Events "jsval list" | Transformed 'r

definition all ::
  "library \<Rightarrow> string \<Rightarrow> contract \<Rightarrow> contractReceipt \<Rightarrow> (jsval list \<Rightarrow> error + 'r) option \<Rightarrow>
   error + 'r allResult"
where
  "all lib customName emitter receipt fn =
     (case findEventArgs lib customName receipt emitter of
        Inl e \<Rightarrow> Inl e
      | Inr args \<Rightarrow>
          (case fn of
             None \<Rightarrow>
               (case verifyEach lib customName emitter args of
                  Inl e \<Rightarrow> Inl e
                | Inr u \<Rightarrow> Inr (Events args))
           | Some f \<Rightarrow>
               (case f args of
                  Inl e \<Rightarrow> Inl e
                | Inr r \<Rightarrow> Inr (Transformed r))))"

section \<open>Notions used in the statements\<close>

text \<open>
  Log \<^verbatim>\<open>j\<close> satisfies a filter with the decoded value \<^verbatim>\<open>decoded\<close>: its address and
  topics match, the filter's decoder returns \<^verbatim>\<open>decoded\<close> and the non-indexed
  constraints accept it.
\<close>

definition matchedBy :: "log list \<Rightarrow> extendedEventFilter \<Rightarrow> nat \<Rightarrow> jsval \<Rightarrow> bool" where
  "matchedBy actuals expected j decoded =
     (j < length actuals \<and> matchTopics (actuals ! j) expected \<and>
      decodeEventData expected (actuals ! j) = Inr decoded \<and>
      propertiesOk expected decoded = Inr True)"

text \<open>
  The scan of a filter moves past log \<^verbatim>\<open>k\<close>: the log is already consumed, or its
  address or topics do not match, or it decodes and the non-indexed constraints reject it.
\<close>

definition passedOver :: "log list \<Rightarrow> bool list \<Rightarrow> extendedEventFilter \<Rightarrow> nat \<Rightarrow> bool" where
  "passedOver actuals mflags expected k =
     (mflags ! k \<or> \<not> matchTopics (actuals ! k) expected \<or>
      (case decodeEventData expected (actuals ! k) of
         Inl e \<Rightarrow> False
       | Inr d \<Rightarrow> propertiesOk expected d = Inr False))"

text \<open>
  Decoding the selected logs one after the other: the first failure of the decoder is the
  failure of the whole.
\<close>

fun decodeInOrder :: "eventDataDecoder \<Rightarrow> log list \<Rightarrow> error + jsval list" where
  "decodeInOrder decodeFn [] = Inr []"
| "decodeInOrder decodeFn (entry # rest) =
     (case decodeFn entry of
        Inl e \<Rightarrow> Inl e
      | Inr decoded \<Rightarrow>
          (case decodeInOrder decodeFn rest of
             Inl e \<Rightarrow> Inl e
           | Inr found \<Rightarrow> Inr (decoded # found)))"

text \<open>
  The logs the single-filter decoder selects for the address \<^verbatim>\<open>a\<close> and the event
  topic \<^verbatim>\<open>t\<close>.
\<close>

definition selectedBy :: "string \<Rightarrow> string \<Rightarrow> log \<Rightarrow> bool" where
  "selectedBy a t entry =
     (toUpperCase (log_address entry) = toUpperCase a \<and> topic0 entry = Some t)"

text \<open>A value with no \<^verbatim>\<open>null\<close> anywhere in it.\<close>

function nullFree :: "jsval \<Rightarrow> bool"
  and nullFreeList :: "jsval list \<Rightarrow> bool"
  and nullFreeProps :: "(string \<times> jsval) list \<Rightarrow> bool"
where
  "nullFree JUndefined = True"
| "nullFree JNull = False"
| "nullFree (JBool b) = True"
| "nullFree (JNum n) = True"
| "nullFree (JStr s) = True"
| "nullFree (JFun f) = True"
| "nullFree (JArr es ps) = (nullFreeList es \<and> nullFreeProps ps)"
| "nullFree (JObj ps) = nullFreeProps ps"
| "nullFreeList [] = True"
| "nullFreeList (v # vs) = (nullFree v \<and> nullFreeList vs)"
| "nullFreeProps [] = True"
| "nullFreeProps ((k, v) # ps) = (nullFree v \<and> nullFreeProps ps)"
  by pat_completeness auto
termination
  by (relation "measure (\<lambda>x. case x of
        Inl v \<Rightarrow> size v
      | Inr (Inl vs) \<Rightarrow> size_list size vs
      | Inr (Inr ps) \<Rightarrow> size_list (size_prod (\<lambda>_. 0) size) ps)") auto

text \<open>
  The constraints a fully specified assignment \<^verbatim>\<open>vs\<close> to the parameters \<^verbatim>\<open>ps\<close>
  stands for: the values of the indexed parameters as topic arguments, the values of the
  others as non-indexed constraints, \<^verbatim>\<open>null\<close> elsewhere.
\<close>

definition topicArgs :: "paramType list \<Rightarrow> jsval list \<Rightarrow> jsval list" where
  "topicArgs ps vs = map2 (\<lambda>p v. if indexed p then v else JNull) ps vs"

definition valueArgs :: "paramType list \<Rightarrow> jsval list \<Rightarrow> jsval list" where
  "valueArgs ps vs = map2 (\<lambda>p v. if indexed p then JNull else v) ps vs"

section \<open>Example inputs\<close>

text \<open>
  The event \<^verbatim>\<open>Store(value)\<close> of the README, with a non-indexed \<^verbatim>\<open>value\<close>. In the
  examples the payload of a log is the stored value itself, and the decoder returns the
  \<^verbatim>\<open>Result\<close> \<^verbatim>\<open>[value, value: value]\<close>.
\<close>

definition decodeStore :: "log \<Rightarrow> error + jsval" where
  "decodeStore l = Inr (JArr [JStr (log_data l)] [(''value'', JStr (log_data l))])"

definition storeLog :: "string \<Rightarrow> log" where
  "storeLog d = \<lparr>log_address = ''0xab'', log_topics = [''Store''], log_data = d\<rparr>"

definition storeFilter :: "string \<Rightarrow> extendedEventFilter" where
  "storeFilter v =
     \<lparr>filter_address = Some ''0xAB'', filter_topics = Some [TopicStr ''Store''],
      nonIndexed = Some [JStr v], decodeEventData = decodeStore\<rparr>"

definition storeResult :: "string \<Rightarrow> jsval" where
  "storeResult v = JArr [JStr v] [(''value'', JStr v)]"

text \<open>
  A \<^verbatim>\<open>BigNumber\<close>, as ethers decodes a \<^verbatim>\<open>uint256\<close>: an object.
\<close>

definition bigNumber5 :: jsval where
  "bigNumber5 = JObj [(''_hex'', JStr ''0x05''), (''_isBigNumber'', JBool True)]"

text \<open>
  The event \<^verbatim>\<open>Resized(uint256 length)\<close>, the fragment of \<^verbatim>\<open>Store\<close>, and a
  contract at address \<^verbatim>\<open>0xAb\<close> whose interface knows \<^verbatim>\<open>Store\<close> only and decodes
  a payload with \<^verbatim>\<open>decodeData\<close>.
\<close>

definition lengthFragment :: eventFragment where
  "lengthFragment =
     \<lparr>fragment_name = ''Resized'', inputs = [\<lparr>param_name = Some ''length'', indexed = False\<rparr>]\<rparr>"

definition storeFragment :: eventFragment where
  "storeFragment =
     \<lparr>fragment_name = ''Store'', inputs = [\<lparr>param_name = Some ''value'', indexed = False\<rparr>]\<rparr>"

text \<open>
  An example environment. Its prototype chains hold the methods of
  \<^verbatim>\<open>Array.prototype\<close> and \<^verbatim>\<open>Object.prototype\<close> of ECMAScript 2015, which every
  later runtime has too: an array inherits from both, a plain object from the second.
  What primitives and functions inherit is left out of the example.
\<close>

definition arrayPrototype :: "string list" where
  "arrayPrototype =
     [''concat'', ''constructor'', ''copyWithin'', ''entries'', ''every'', ''fill'',
      ''filter'', ''find'', ''findIndex'', ''forEach'', ''indexOf'', ''join'', ''keys'',
      ''lastIndexOf'', ''map'', ''pop'', ''push'', ''reduce'', ''reduceRight'', ''reverse'',
      ''shift'', ''slice'', ''some'', ''sort'', ''splice'', ''toLocaleString'', ''toString'',
      ''unshift'', ''values'']"

definition objectPrototype :: "string list" where
  "objectPrototype =
     [''constructor'', ''hasOwnProperty'', ''isPrototypeOf'', ''propertyIsEnumerable'',
      ''toLocaleString'', ''toString'', ''valueOf'']"

definition examplePrototypes :: "jsval \<Rightarrow> string \<Rightarrow> jsval" where
  "examplePrototypes v k =
     (case v of
        JArr es ps \<Rightarrow>
          if k \<in> set arrayPrototype then JFun (''Array.prototype.'' @ k)
          else if k \<in> set objectPrototype then JFun (''Object.prototype.'' @ k)
          else JUndefined
      | JObj ps \<Rightarrow>
          if k \<in> set objectPrototype then JFun (''Object.prototype.'' @ k) else JUndefined
      | _ \<Rightarrow> JUndefined)"

definition exampleLibrary :: library where
  "exampleLibrary =
     \<lparr>isAddress = (\<lambda>s. True), topicId = fragment_name, chaiEq = (\<lambda>a b. a = b),
      inherited = examplePrototypes\<rparr>"

definition storeInterface :: "(string \<Rightarrow> jsval) \<Rightarrow> interface" where
  "storeInterface decodeData =
     \<lparr>getEvent = (\<lambda>n. if n = ''Store'' then Inr storeFragment
                        else Inl (External ''no matching event'')),
      encodeFilterTopics = (\<lambda>fragment args. Inr [TopicStr (fragment_name fragment)]),
      decodeEventLog = (\<lambda>fragment d ts. Inr (decodeData d))\<rparr>"

definition storeContract :: "(string \<Rightarrow> jsval) \<Rightarrow> contract" where
  "storeContract decodeData =
     \<lparr>contract_address = ''0xAb'', contract_interface = storeInterface decodeData\<rparr>"

definition emptyResult :: "string \<Rightarrow> jsval" where
  "emptyResult d = JArr [] []"

definition passOn :: "jsval list \<Rightarrow> error + jsval list" where
  "passOn args = Inr args"

definition noTransform :: "(jsval list \<Rightarrow> error + jsval list) option" where
  "noTransform = None"

text \<open>
  The event \<^verbatim>\<open>Batch(uint256[] values)\<close>, whose parameter has the name of an array
  method, and a contract that emits it. The decoder of ethers gives a \<^verbatim>\<open>Result\<close> no
  named property that the array has already: the decoded event is \<^verbatim>\<open>[values]\<close>, with
  no own property \<^verbatim>\<open>values\<close>.
\<close>

definition batchFragment :: eventFragment where
  "batchFragment =
     \<lparr>fragment_name = ''Batch'', inputs = [\<lparr>param_name = Some ''values'', indexed = False\<rparr>]\<rparr>"

definition batchResult :: "string \<Rightarrow> jsval" where
  "batchResult d = JArr [JArr [JStr d] []] []"

definition batchContract :: contract where
  "batchContract =
     \<lparr>contract_address = ''0xAb'',
      contract_interface =
        \<lparr>getEvent = (\<lambda>n. if n = ''Batch'' then Inr batchFragment
                           else Inl (External ''no matching event'')),
         encodeFilterTopics = (\<lambda>fragment args. Inr [TopicStr (fragment_name fragment)]),
         decodeEventLog = (\<lambda>fragment d ts. Inr (batchResult d))\<rparr>\<rparr>"

definition batchLog :: "string \<Rightarrow> log" where
  "batchLog d = \<lparr>log_address = ''0xab'', log_topics = [''Batch''], log_data = d\<rparr>"

section \<open>Properties of the ordered matcher\<close>

declare isDeepEqual.simps(1) [simp del]
declare scanLogs.simps [simp del]
declare natToString.simps [simp del]

lemma scanLogs_found:
  "scanLogs actuals mflags prev expected start = Inr (Some (j, d)) \<Longrightarrow>
     start \<le> j \<and> j < length actuals \<and> \<not> mflags ! j \<and> prev < int j \<and>
     matchTopics (actuals ! j) expected \<and>
     decodeEventData expected (actuals ! j) = Inr d \<and>
     propertiesOk expected d = Inr True"
proof (induction actuals mflags prev expected start rule: scanLogs.induct)
  case (1 actuals mflags prev expected j')
  show ?case
    using "1.prems" "1.IH"
    by (subst (asm) scanLogs.simps)
       (fastforce split: if_splits sum.splits)
qed

lemma scanLogs_first_candidate:
  assumes "start \<le> j" and "\<not> mflags ! j" and "matchedBy actuals expected j d"
    and "\<forall>k. start \<le> k \<and> k < j \<longrightarrow> passedOver actuals mflags expected k"
  shows "scanLogs actuals mflags prev expected start =
           (if prev < int j then Inr (Some (j, d)) else Inl WrongOrderOfEvents)"
  using assms
proof (induction "j - start" arbitrary: start)
  case 0
  then have "start = j" by simp
  with 0 show ?case
    by (subst scanLogs.simps) (simp add: matchedBy_def)
next
  case (Suc n)
  then have lt: "start < j" and jl: "j < length actuals" by (auto simp: matchedBy_def)
  from Suc.prems(4) lt have po: "passedOver actuals mflags expected start" by simp
  have step: "scanLogs actuals mflags prev expected start =
                scanLogs actuals mflags prev expected (Suc start)"
    using po lt jl
    by (subst scanLogs.simps) (auto simp: passedOver_def split: sum.splits)
  have "scanLogs actuals mflags prev expected (Suc start) =
          (if prev < int j then Inr (Some (j, d)) else Inl WrongOrderOfEvents)"
    using Suc.hyps(2) lt Suc.prems(2,3,4) by (intro Suc.hyps(1)) auto
  with step show ?case by simp
qed



lemma orderedLoop_append:
  "orderedLoop actuals fo (xs @ ys) st =
     (case orderedLoop actuals fo xs st of
        Inl e \<Rightarrow> Inl e
      | Inr st' \<Rightarrow> orderedLoop actuals fo ys st')"
  by (induction xs arbitrary: st) (auto split: sum.splits option.splits)

lemma orderedLoop_sorted:
  "orderedLoop actuals fo fs st = Inr st' \<Longrightarrow>
   sorted_wrt (<) (positions st) \<Longrightarrow>
   (\<forall>p \<in> set (positions st). int p \<le> prevActualIndex st) \<Longrightarrow>
   sorted_wrt (<) (positions st') \<and> (\<forall>p \<in> set (positions st'). int p \<le> prevActualIndex st')"
proof (induction fs arbitrary: st)
  case Nil
  then show ?case by simp
next
  case (Cons f fs)
  let ?scan = "scanLogs actuals (matched st) (prevActualIndex st) f
                 (searchStart fo (prevActualIndex st))"
  show ?case
  proof (cases ?scan)
    case (Inl e)
    with Cons.prems(1) show ?thesis by simp
  next
    case (Inr r)
    show ?thesis
    proof (cases r)
      case None
      with Inr Cons.prems have "orderedLoop actuals fo fs st = Inr st'" by simp
      from Cons.IH[OF this Cons.prems(2,3)] show ?thesis .
    next
      case (Some jd)
      obtain j d where jd: "jd = (j, d)" by (cases jd)
      let ?st1 = "recordMatch actuals st j d"
      from Inr Some jd Cons.prems(1) have run: "orderedLoop actuals fo fs ?st1 = Inr st'"
        by simp
      from Inr Some jd have "prevActualIndex st < int j"
        using scanLogs_found by blast
      with Cons.prems(2,3) have "sorted_wrt (<) (positions ?st1)"
        and "\<forall>p \<in> set (positions ?st1). int p \<le> prevActualIndex ?st1"
        by (auto simp: recordMatch_def sorted_wrt_append)
      from Cons.IH[OF run this] show ?thesis .
    qed
  qed
qed

lemma orderedLoop_flags:
  "orderedLoop actuals fo fs st = Inr st' \<Longrightarrow>
   length (matched st) = length actuals \<Longrightarrow>
   distinct (positions st) \<Longrightarrow>
   (\<forall>j < length actuals. matched st ! j \<longleftrightarrow> j \<in> set (positions st)) \<Longrightarrow>
   length (matched st') = length actuals \<and> distinct (positions st') \<and>
   (\<forall>j < length actuals. matched st' ! j \<longleftrightarrow> j \<in> set (positions st'))"
proof (induction fs arbitrary: st)
  case Nil
  then show ?case by simp
next
  case (Cons f fs)
  let ?scan = "scanLogs actuals (matched st) (prevActualIndex st) f
                 (searchStart fo (prevActualIndex st))"
  show ?case
  proof (cases ?scan)
    case (Inl e)
    with Cons.prems(1) show ?thesis by simp
  next
    case (Inr r)
    show ?thesis
    proof (cases r)
      case None
      with Inr Cons.prems have "orderedLoop actuals fo fs st = Inr st'" by simp
      from Cons.IH[OF this Cons.prems(2,3,4)] show ?thesis .
    next
      case (Some jd)
      obtain j d where jd: "jd = (j, d)" by (cases jd)
      let ?st1 = "recordMatch actuals st j d"
      from Inr Some jd Cons.prems(1) have run: "orderedLoop actuals fo fs ?st1 = Inr st'"
        by simp
      from Inr Some jd have j: "j < length actuals" "\<not> matched st ! j"
        using scanLogs_found by blast+
      with Cons.prems(4) have notin: "j \<notin> set (positions st)" by blast
      have a: "length (matched ?st1) = length actuals"
        using Cons.prems(2) by (simp add: recordMatch_def)
      have b: "distinct (positions ?st1)"
        using Cons.prems(3) notin by (simp add: recordMatch_def)
      have c: "\<forall>k < length actuals. matched ?st1 ! k \<longleftrightarrow> k \<in> set (positions ?st1)"
        using Cons.prems(2,4) j by (auto simp: recordMatch_def nth_list_update)
      from Cons.IH[OF run a b c] show ?thesis .
    qed
  qed
qed

lemma orderedLoop_results:
  "orderedLoop actuals fo fs st = Inr st' \<Longrightarrow>
   \<exists>ps ds. positions st' = positions st @ ps \<and> result st' = result st @ ds \<and>
     resultAddr st' = resultAddr st @ map (\<lambda>p. log_address (actuals ! p)) ps \<and>
     length ds = length ps \<and> length ps \<le> length fs \<and>
     (length ps = length fs \<longrightarrow> list_all2 (\<lambda>f (p, d). matchedBy actuals f p d) fs (zip ps ds))"
proof (induction fs arbitrary: st)
  case Nil
  then show ?case by simp
next
  case (Cons f fs)
  let ?scan = "scanLogs actuals (matched st) (prevActualIndex st) f
                 (searchStart fo (prevActualIndex st))"
  show ?case
  proof (cases ?scan)
    case (Inl e)
    with Cons.prems(1) show ?thesis by simp
  next
    case (Inr r)
    show ?thesis
    proof (cases r)
      case None
      with Inr Cons.prems have "orderedLoop actuals fo fs st = Inr st'" by simp
      from Cons.IH[OF this] obtain ps ds where
        "positions st' = positions st @ ps" "result st' = result st @ ds"
        "resultAddr st' = resultAddr st @ map (\<lambda>p. log_address (actuals ! p)) ps"
        "length ds = length ps" "length ps \<le> length fs"
        by blast
      then show ?thesis by (intro exI[of _ ps] exI[of _ ds]) simp
    next
      case (Some jd)
      obtain j d where jd: "jd = (j, d)" by (cases jd)
      let ?st1 = "recordMatch actuals st j d"
      from Inr Some jd Cons.prems(1) have run: "orderedLoop actuals fo fs ?st1 = Inr st'"
        by simp
      from Inr Some jd have m: "matchedBy actuals f j d"
        using scanLogs_found unfolding matchedBy_def by blast
      from Cons.IH[OF run] obtain ps ds where ih:
        "positions st' = positions ?st1 @ ps" "result st' = result ?st1 @ ds"
        "resultAddr st' = resultAddr ?st1 @ map (\<lambda>p. log_address (actuals ! p)) ps"
        "length ds = length ps" "length ps \<le> length fs"
        "length ps = length fs \<longrightarrow> list_all2 (\<lambda>f (p, d). matchedBy actuals f p d) fs (zip ps ds)"
        by blast
      show ?thesis
        using ih m by (intro exI[of _ "j # ps"] exI[of _ "d # ds"]) (simp add: recordMatch_def)
    qed
  qed
qed

lemma initialState_simps:
  "result (initialState n) = []" "resultAddr (initialState n) = []"
  "matched (initialState n) = replicate n False" "prevActualIndex (initialState n) = - 1"
  "positions (initialState n) = []"
  by (simp_all add: initialState_def)

lemma orderedFilter_returns:
  "orderedFilter actuals expecteds fo = Inr r \<Longrightarrow>
   \<exists>st. orderedFilterState actuals expecteds fo = Inr st \<and> r = (resultAddr st, result st)"
  by (auto simp: orderedFilter_def split: sum.splits)

lemma orderedFilterState_returns:
  "orderedFilterState actuals expecteds fo = Inr st \<Longrightarrow>
   orderedLoop actuals fo expecteds (initialState (length actuals)) = Inr st \<and>
   length (result st) = length expecteds"
  by (auto simp: orderedFilterState_def split: sum.splits if_splits)

subsection \<open>The first valid candidate decides (claim C1)\<close>

text \<open>
  Claim C1, as the code has it. With \<^verbatim>\<open>forwardOnly = false\<close> the scan of a filter starts
  at position 0 and stops at the first unconsumed log that matches the filter's address,
  topics and non-indexed values (every earlier log is consumed, or does not match, or is
  rejected by the value constraints). If that log's position is greater than the previous
  match, it is the filter's match and the loop goes on with the next filter; if it is at
  or before the previous match, the call fails at once with \<^verbatim>\<open>Wrong order of events\<close>,
  whether or not a valid candidate exists at a later position. A later candidate is never
  chosen over an earlier valid one.
\<close>

theorem orderedLoop_first_candidate_decides:
  assumes "orderedLoop actuals False pre (initialState (length actuals)) = Inr st"
    and "\<not> matched st ! j"
    and "matchedBy actuals expected j d"
    and "\<forall>k<j. passedOver actuals (matched st) expected k"
  shows "orderedLoop actuals False (pre @ expected # rest) (initialState (length actuals)) =
           (if prevActualIndex st < int j
            then orderedLoop actuals False rest (recordMatch actuals st j d)
            else Inl WrongOrderOfEvents)
         \<and> (\<not> prevActualIndex st < int j \<longrightarrow>
              orderedFilter actuals (pre @ expected # rest) False = Inl WrongOrderOfEvents)"
proof -
  have scan: "scanLogs actuals (matched st) (prevActualIndex st) expected
                (searchStart False (prevActualIndex st)) =
              (if prevActualIndex st < int j then Inr (Some (j, d)) else Inl WrongOrderOfEvents)"
    unfolding searchStart_def using assms(2,3,4)
    by (simp add: scanLogs_first_candidate)
  have loop: "orderedLoop actuals False (pre @ expected # rest) (initialState (length actuals)) =
           (if prevActualIndex st < int j
            then orderedLoop actuals False rest (recordMatch actuals st j d)
            else Inl WrongOrderOfEvents)"
    using assms(1) scan by (simp add: orderedLoop_append)
  then show ?thesis
    by (simp add: orderedFilter_def orderedFilterState_def)
qed

text \<open>
  The theorem at the logs \<^verbatim>\<open>Store(1), Store(2), Store(3)\<close> and the filters
  \<^verbatim>\<open>{value: 2}, {value: 3}\<close>: the first filter passes over log 0 and takes log 1.
\<close>

theorem orderedLoop_first_candidate_decides_witness:
  "orderedLoop [storeLog ''1'', storeLog ''2'', storeLog ''3''] False
     ([] @ storeFilter ''2'' # [storeFilter ''3'']) (initialState 3) =
   orderedLoop [storeLog ''1'', storeLog ''2'', storeLog ''3''] False [storeFilter ''3'']
     (recordMatch [storeLog ''1'', storeLog ''2'', storeLog ''3''] (initialState 3) 1
        (storeResult ''2''))"
proof -
  let ?logs = "[storeLog ''1'', storeLog ''2'', storeLog ''3'']"
  have len: "length ?logs = 3" by simp
  have a: "orderedLoop ?logs False [] (initialState (length ?logs)) = Inr (initialState 3)"
    by (simp only: len orderedLoop.simps)
  have b: "\<not> matched (initialState 3) ! 1" by code_simp
  have c: "matchedBy ?logs (storeFilter ''2'') 1 (storeResult ''2'')" by code_simp
  have "passedOver ?logs (matched (initialState 3)) (storeFilter ''2'') 0" by code_simp
  then have d: "\<forall>k<1. passedOver ?logs (matched (initialState 3)) (storeFilter ''2'') k"
    by simp
  have e: "prevActualIndex (initialState 3) < int 1" by (simp add: initialState_def)
  note w = orderedLoop_first_candidate_decides[OF a b c d, of "[storeFilter ''3'']"]
  from w[THEN conjunct1] show ?thesis
    unfolding len by (simp only: e if_True)
qed

text \<open>
  Claim C1 as stated fails. For the logs \<^verbatim>\<open>Store(7), Store(2), Store(7)\<close> and the
  filters \<^verbatim>\<open>{value: 2}, {value: 7}\<close> with \<^verbatim>\<open>forwardOnly = false\<close>, the first filter
  takes log 1; the second filter meets log 0, which is before position 1, and the call
  fails with \<^verbatim>\<open>Wrong order of events\<close> although log 2 is unconsumed, lies after
  position 1 and satisfies the second filter.
\<close>

theorem later_candidate_not_chosen:
  "orderedFilter [storeLog ''7'', storeLog ''2'', storeLog ''7'']
     [storeFilter ''2'', storeFilter ''7''] False = Inl WrongOrderOfEvents
   \<and> matchedBy [storeLog ''7'', storeLog ''2'', storeLog ''7''] (storeFilter ''7'') 2
       (storeResult ''7'')
   \<and> orderedLoop [storeLog ''7'', storeLog ''2'', storeLog ''7''] False [storeFilter ''2'']
       (initialState 3) =
     Inr \<lparr>result = [storeResult ''2''], resultAddr = [''0xab''],
          matched = [False, True, False], prevActualIndex = 1, positions = [1]\<rparr>"
  by code_simp

subsection \<open>Positions increase (claim C2)\<close>

text \<open>
  Claim C2. Whenever \<^verbatim>\<open>_orderedFilter\<close> returns, for either value of
  \<^verbatim>\<open>forwardOnly\<close>, the positions of the matched logs, one per filter and in filter
  order, increase strictly.
\<close>

theorem orderedFilter_positions_increase:
  assumes "orderedFilter actuals expecteds forwardOnly = Inr r"
  shows "\<exists>st. orderedFilterState actuals expecteds forwardOnly = Inr st \<and>
              r = (resultAddr st, result st) \<and>
              length (positions st) = length expecteds \<and>
              sorted_wrt (<) (positions st) \<and>
              (\<forall>i. 0 < i \<and> i < length (positions st) \<longrightarrow>
                     positions st ! (i - 1) < positions st ! i)"
proof -
  from orderedFilter_returns[OF assms] obtain st where
    st: "orderedFilterState actuals expecteds forwardOnly = Inr st"
    and r: "r = (resultAddr st, result st)" by blast
  from orderedFilterState_returns[OF st] have
    run: "orderedLoop actuals forwardOnly expecteds (initialState (length actuals)) = Inr st"
    and len: "length (result st) = length expecteds" by simp_all
  from orderedLoop_sorted[OF run] have sorted: "sorted_wrt (<) (positions st)"
    by (simp add: initialState_simps)
  from orderedLoop_results[OF run] have "length (positions st) = length (result st)"
    by (auto simp: initialState_simps)
  with len have plen: "length (positions st) = length expecteds" by simp
  have "\<forall>i. 0 < i \<and> i < length (positions st) \<longrightarrow>
          positions st ! (i - 1) < positions st ! i"
    using sorted by (auto simp: sorted_wrt_iff_nth_less)
  with st r plen sorted show ?thesis by blast
qed

text \<open>
  The theorem at the logs \<^verbatim>\<open>Store(1), Store(2), Store(3)\<close> and the filters
  \<^verbatim>\<open>{value: 2}, {value: 3}\<close>: the matched positions are 1 and 2.
\<close>

theorem orderedFilter_positions_increase_witness:
  "\<exists>st. orderedFilterState [storeLog ''1'', storeLog ''2'', storeLog ''3'']
           [storeFilter ''2'', storeFilter ''3''] False = Inr st \<and>
        positions st = [1, 2] \<and> sorted_wrt (<) (positions st)"
proof -
  let ?logs = "[storeLog ''1'', storeLog ''2'', storeLog ''3'']"
  let ?fs = "[storeFilter ''2'', storeFilter ''3'']"
  have h: "orderedFilter ?logs ?fs False =
             Inr ([''0xab'', ''0xab''], [storeResult ''2'', storeResult ''3''])"
    by code_simp
  have p: "orderedFilterState ?logs ?fs False =
             Inr \<lparr>result = [storeResult ''2'', storeResult ''3''],
                  resultAddr = [''0xab'', ''0xab''], matched = [False, True, True],
                  prevActualIndex = 2, positions = [1, 2]\<rparr>"
    by code_simp
  from orderedFilter_positions_increase[OF h] p show ?thesis by auto
qed

subsection \<open>All filters or a failure (claim C3)\<close>

text \<open>
  Claim C3. When \<^verbatim>\<open>_orderedFilter\<close> returns for \<^verbatim>\<open>N\<close> filters, it returns
  exactly \<^verbatim>\<open>N\<close> decoded results and \<^verbatim>\<open>N\<close> addresses, and result \<^verbatim>\<open>i\<close> is what
  filter \<^verbatim>\<open>i\<close> decodes from a log that satisfies filter \<^verbatim>\<open>i\<close>, with that log's
  address. When the scan of any filter ends without a match, the whole call fails,
  whatever filters precede and follow: no partial result is returned.
\<close>

theorem orderedFilter_all_or_nothing:
  "(orderedFilter actuals expecteds fo = Inr (addrs, res) \<longrightarrow>
      length res = length expecteds \<and> length addrs = length expecteds \<and>
      (\<exists>ps. length ps = length expecteds \<and>
         (\<forall>i<length expecteds.
            matchedBy actuals (expecteds ! i) (ps ! i) (res ! i) \<and>
            addrs ! i = log_address (actuals ! (ps ! i)))))
   \<and> (orderedLoop actuals fo pre (initialState (length actuals)) = Inr st \<and>
      scanLogs actuals (matched st) (prevActualIndex st) f
        (searchStart fo (prevActualIndex st)) = Inr None \<longrightarrow>
      isl (orderedFilter actuals (pre @ f # post) fo))"
proof (intro conjI impI)
  assume ret: "orderedFilter actuals expecteds fo = Inr (addrs, res)"
  from orderedFilter_returns[OF ret] obtain st' where
    st': "orderedFilterState actuals expecteds fo = Inr st'"
    and r: "addrs = resultAddr st'" "res = result st'" by auto
  from orderedFilterState_returns[OF st'] have
    run: "orderedLoop actuals fo expecteds (initialState (length actuals)) = Inr st'"
    and len: "length (result st') = length expecteds" by simp_all
  from orderedLoop_results[OF run] obtain ps ds where
    ps: "positions st' = ps" "result st' = ds"
        "resultAddr st' = map (\<lambda>p. log_address (actuals ! p)) ps"
        "length ds = length ps"
        "length ps = length expecteds \<longrightarrow>
           list_all2 (\<lambda>f (p, d). matchedBy actuals f p d) expecteds (zip ps ds)"
    by (auto simp: initialState_simps)
  from ps len have plen: "length ps = length expecteds" by simp
  with ps(5) have all2: "list_all2 (\<lambda>f (p, d). matchedBy actuals f p d) expecteds (zip ps ds)"
    by simp
  show "length res = length expecteds" using r len by simp
  show "length addrs = length expecteds" using r ps(3) plen by simp
  have "\<forall>i<length expecteds.
          matchedBy actuals (expecteds ! i) (ps ! i) (res ! i) \<and>
          addrs ! i = log_address (actuals ! (ps ! i))"
  proof (intro allI impI)
    fix i assume i: "i < length expecteds"
    from all2 have "\<forall>i<length expecteds.
        case zip ps ds ! i of (p, d) \<Rightarrow> matchedBy actuals (expecteds ! i) p d"
      unfolding list_all2_conv_all_nth by (rule conjunct2)
    with i have "case zip ps ds ! i of (p, d) \<Rightarrow> matchedBy actuals (expecteds ! i) p d"
      by simp
    moreover have "zip ps ds ! i = (ps ! i, ds ! i)"
      using i plen ps(4) by simp
    ultimately have "matchedBy actuals (expecteds ! i) (ps ! i) (res ! i)"
      using r ps(2) by simp
    moreover have "addrs ! i = log_address (actuals ! (ps ! i))"
      using r ps(3) i plen by simp
    ultimately show "matchedBy actuals (expecteds ! i) (ps ! i) (res ! i) \<and>
          addrs ! i = log_address (actuals ! (ps ! i))" by simp
  qed
  with plen show "\<exists>ps. length ps = length expecteds \<and>
         (\<forall>i<length expecteds.
            matchedBy actuals (expecteds ! i) (ps ! i) (res ! i) \<and>
            addrs ! i = log_address (actuals ! (ps ! i)))" by blast
next
  assume h: "orderedLoop actuals fo pre (initialState (length actuals)) = Inr st \<and>
      scanLogs actuals (matched st) (prevActualIndex st) f
        (searchStart fo (prevActualIndex st)) = Inr None"
  then have pre: "orderedLoop actuals fo pre (initialState (length actuals)) = Inr st"
    and none: "scanLogs actuals (matched st) (prevActualIndex st) f
        (searchStart fo (prevActualIndex st)) = Inr None" by simp_all
  have loop: "orderedLoop actuals fo (pre @ f # post) (initialState (length actuals)) =
                orderedLoop actuals fo post st"
    using pre none by (simp add: orderedLoop_append)
  from orderedLoop_results[OF pre] have l1: "length (result st) \<le> length pre"
    by (auto simp: initialState_simps)
  show "isl (orderedFilter actuals (pre @ f # post) fo)"
  proof (cases "orderedLoop actuals fo post st")
    case (Inl e)
    with loop show ?thesis
      by (simp add: orderedFilter_def orderedFilterState_def)
  next
    case (Inr st'')
    from orderedLoop_results[OF Inr] have "length (result st'') \<le> length (result st) + length post"
      by auto
    with l1 have "length (result st'') \<noteq> length (pre @ f # post)" by simp
    with loop Inr show ?thesis
      by (simp add: orderedFilter_def orderedFilterState_def)
  qed
qed

text \<open>
  The theorem at the logs \<^verbatim>\<open>Store(1), Store(2), Store(3)\<close>: the filters
  \<^verbatim>\<open>{value: 2}, {value: 3}\<close> give two results, and the filters
  \<^verbatim>\<open>{value: 2}, {value: 9}, {value: 3}\<close>, the second of which matches no log, fail.
\<close>

theorem orderedFilter_all_or_nothing_witness:
  "length [storeResult ''2'', storeResult ''3''] = length [storeFilter ''2'', storeFilter ''3'']
   \<and> isl (orderedFilter [storeLog ''1'', storeLog ''2'', storeLog ''3'']
            ([storeFilter ''2''] @ storeFilter ''9'' # [storeFilter ''3'']) False)"
proof -
  let ?logs = "[storeLog ''1'', storeLog ''2'', storeLog ''3'']"
  let ?st = "\<lparr>result = [storeResult ''2''], resultAddr = [''0xab''],
          matched = [False, True, False], prevActualIndex = 1, positions = [1]\<rparr>"
  have a: "orderedFilter ?logs [storeFilter ''2'', storeFilter ''3''] False =
             Inr ([''0xab'', ''0xab''], [storeResult ''2'', storeResult ''3''])"
    by code_simp
  have b: "orderedLoop ?logs False [storeFilter ''2''] (initialState (length ?logs)) = Inr ?st"
    by code_simp
  have c: "scanLogs ?logs (matched ?st) (prevActualIndex ?st) (storeFilter ''9'')
             (searchStart False (prevActualIndex ?st)) = Inr None"
    by code_simp
  from orderedFilter_all_or_nothing[THEN conjunct1, rule_format, OF a]
  have 1: "length [storeResult ''2'', storeResult ''3''] =
             length [storeFilter ''2'', storeFilter ''3'']" by blast
  from orderedFilter_all_or_nothing[THEN conjunct2, rule_format, OF conjI[OF b c]]
  have 2: "isl (orderedFilter ?logs ([storeFilter ''2''] @ storeFilter ''9'' # [storeFilter ''3''])
             False)" .
  from 1 2 show ?thesis by (rule conjI)
qed

subsection \<open>No log is matched twice (claim C4)\<close>

text \<open>
  Claim C4. When \<^verbatim>\<open>_orderedFilter\<close> returns, the positions of the matched logs, one
  per filter, are pairwise different, and the consumed logs (the flags \<^verbatim>\<open>matched\<close>)
  are exactly the logs at these positions.
\<close>

theorem orderedFilter_positions_disjoint:
  assumes "orderedFilter actuals expecteds forwardOnly = Inr r"
  shows "\<exists>st. orderedFilterState actuals expecteds forwardOnly = Inr st \<and>
              r = (resultAddr st, result st) \<and>
              length (positions st) = length expecteds \<and>
              distinct (positions st) \<and>
              (\<forall>j<length actuals. matched st ! j \<longleftrightarrow> j \<in> set (positions st))"
proof -
  from orderedFilter_returns[OF assms] obtain st where
    st: "orderedFilterState actuals expecteds forwardOnly = Inr st"
    and r: "r = (resultAddr st, result st)" by blast
  from orderedFilterState_returns[OF st] have
    run: "orderedLoop actuals forwardOnly expecteds (initialState (length actuals)) = Inr st"
    and len: "length (result st) = length expecteds" by simp_all
  from orderedLoop_flags[OF run] have
    "distinct (positions st) \<and>
     (\<forall>j<length actuals. matched st ! j \<longleftrightarrow> j \<in> set (positions st))"
    by (simp add: initialState_simps)
  moreover from orderedLoop_results[OF run] have "length (positions st) = length (result st)"
    by (auto simp: initialState_simps)
  ultimately show ?thesis using st r len by auto
qed

text \<open>
  The theorem at two equal logs \<^verbatim>\<open>Store(3), Store(3)\<close> and two equal filters
  \<^verbatim>\<open>{value: 3}, {value: 3}\<close>: the filters take the positions 0 and 1.
\<close>

theorem orderedFilter_positions_disjoint_witness:
  "\<exists>st. orderedFilterState [storeLog ''3'', storeLog ''3'']
           [storeFilter ''3'', storeFilter ''3''] False = Inr st \<and>
        positions st = [0, 1] \<and> distinct (positions st)"
proof -
  let ?logs = "[storeLog ''3'', storeLog ''3'']"
  let ?fs = "[storeFilter ''3'', storeFilter ''3'']"
  have h: "orderedFilter ?logs ?fs False =
             Inr ([''0xab'', ''0xab''], [storeResult ''3'', storeResult ''3''])"
    by code_simp
  have p: "orderedFilterState ?logs ?fs False =
             Inr \<lparr>result = [storeResult ''3'', storeResult ''3''],
                  resultAddr = [''0xab'', ''0xab''], matched = [True, True],
                  prevActualIndex = 1, positions = [0, 1]\<rparr>"
    by code_simp
  from orderedFilter_positions_disjoint[OF h] p show ?thesis by auto
qed

subsection \<open>Forward-only search (claim C5)\<close>



section \<open>Properties of the single-filter log decoder\<close>

lemma decodeEventLogs_select:
  assumes "\<And>em tp. lk em tp = (if P em tp then Some dec else None)"
  shows "decodeEventLogs entries lk =
           decodeInOrder dec (filter (\<lambda>e. P (toUpperCase (log_address e)) (topic0 e)) entries)"
  by (induction entries) (auto simp: assms split: sum.splits)

lemma decodeEventLogs_none:
  assumes "\<And>em tp. lk em tp = None"
  shows "decodeEventLogs entries lk = Inr []"
  by (induction entries) (simp_all add: assms)

lemma filterEventFromLog_unset:
  assumes "filtersToDecoders [flt] = Map.empty"
  shows "filterEventFromLog entries flt = Inr []"
  unfolding filterEventFromLog_def
  by (rule decodeEventLogs_none) (simp add: lookupDecoder_def assms)

subsection \<open>What the decoder selects (claim C6)\<close>

text \<open>
  Claim C6, as the code has it. For a filter with a non-empty address whose topics start
  with a string, \<^verbatim>\<open>filterEventFromLog\<close> decodes, in the original order, exactly the
  logs whose topic 0 is that string and whose address equals the filter's address up to
  letter case; it returns the empty list when there is none, and fails only when the
  decoder fails on a selected log. For a filter with no address (or the empty one), with
  no topics, or whose first topic is missing or not a string, it returns the empty list
  for every log sequence. The non-indexed constraints of the filter play no part.
\<close>

theorem filterEventFromLog_selects:
  "filterEventFromLog entries flt =
     (case filter_address flt of
        None \<Rightarrow> Inr []
      | Some a \<Rightarrow>
          if a = [] then Inr []
          else (case filter_topics flt of
                  Some (TopicStr t # ts) \<Rightarrow>
                    decodeInOrder (decodeEventData flt) (filter (selectedBy a t) entries)
                | _ \<Rightarrow> Inr []))
   \<and> filterEventFromLog entries (flt\<lparr>nonIndexed := ni\<rparr>) = filterEventFromLog entries flt"
proof
  have "addDecoder Map.empty (flt\<lparr>nonIndexed := ni\<rparr>) = addDecoder Map.empty flt"
    by (simp add: addDecoder_def split: option.splits list.splits topic.splits)
  then show "filterEventFromLog entries (flt\<lparr>nonIndexed := ni\<rparr>) =
               filterEventFromLog entries flt"
    by (simp add: filterEventFromLog_def filtersToDecoders_def)
next
  show "filterEventFromLog entries flt =
     (case filter_address flt of
        None \<Rightarrow> Inr []
      | Some a \<Rightarrow>
          if a = [] then Inr []
          else (case filter_topics flt of
                  Some (TopicStr t # ts) \<Rightarrow>
                    decodeInOrder (decodeEventData flt) (filter (selectedBy a t) entries)
                | _ \<Rightarrow> Inr []))"
  proof (cases "\<exists>a t ts. filter_address flt = Some a \<and> a \<noteq> [] \<and>
                  filter_topics flt = Some (TopicStr t # ts)")
    case True
    then obtain a t ts where f: "filter_address flt = Some a" "a \<noteq> []"
      "filter_topics flt = Some (TopicStr t # ts)" by blast
    have lk: "\<And>em tp. lookupDecoder (filtersToDecoders [flt]) em tp =
            (if em = toUpperCase a \<and> tp = Some t then Some (decodeEventData flt) else None)"
      using f by (auto simp: lookupDecoder_def filtersToDecoders_def addDecoder_def
                       split: option.splits)
    have "filterEventFromLog entries flt =
            decodeInOrder (decodeEventData flt)
              (filter (\<lambda>e. toUpperCase (log_address e) = toUpperCase a \<and> topic0 e = Some t)
                 entries)"
      unfolding filterEventFromLog_def by (rule decodeEventLogs_select) (rule lk)
    with f show ?thesis by (simp add: selectedBy_def[abs_def])
  next
    case False
    then have "filtersToDecoders [flt] = Map.empty"
      by (auto simp: filtersToDecoders_def addDecoder_def
               split: option.splits list.splits topic.splits)
    from filterEventFromLog_unset[OF this] False show ?thesis
      by (auto split: option.splits list.splits topic.splits)
  qed
qed

text \<open>
  The theorem at the logs \<^verbatim>\<open>Store(1)\<close>, a \<^verbatim>\<open>Store(5)\<close> of another address and
  \<^verbatim>\<open>Store(2)\<close>, with the filter \<^verbatim>\<open>{value: 7}\<close>: the two logs of the address are
  decoded, whatever their value.
\<close>

theorem filterEventFromLog_selects_witness:
  "filterEventFromLog
     [storeLog ''1'', \<lparr>log_address = ''0xcd'', log_topics = [''Store''], log_data = ''5''\<rparr>,
      storeLog ''2''] (storeFilter ''7'') =
   Inr [storeResult ''1'', storeResult ''2'']"
proof -
  let ?entries =
    "[storeLog ''1'', \<lparr>log_address = ''0xcd'', log_topics = [''Store''], log_data = ''5''\<rparr>,
      storeLog ''2'']"
  note w = filterEventFromLog_selects[of ?entries "storeFilter ''7''", THEN conjunct1]
  have "(case filter_address (storeFilter ''7'') of
           None \<Rightarrow> Inr []
         | Some a \<Rightarrow>
             if a = [] then Inr []
             else (case filter_topics (storeFilter ''7'') of
                     Some (TopicStr t # ts) \<Rightarrow>
                       decodeInOrder (decodeEventData (storeFilter ''7''))
                         (filter (selectedBy a t) ?entries)
                   | _ \<Rightarrow> Inr [])) =
        Inr [storeResult ''1'', storeResult ''2'']"
    by code_simp
  with w show ?thesis by (rule trans)
qed

text \<open>
  Claim C6 as stated fails where it says that a filter with no address accepts any
  address: for the log \<^verbatim>\<open>Store(1)\<close> and the filter \<^verbatim>\<open>{value: 1}\<close> with its address
  unset, topic 0 of the log is the filter's, yet nothing is returned; with the address
  set, the log is decoded.
\<close>

theorem filterEventFromLog_needs_address:
  "filterEventFromLog [storeLog ''1''] ((storeFilter ''1'')\<lparr>filter_address := None\<rparr>) = Inr []
   \<and> filter_topics ((storeFilter ''1'')\<lparr>filter_address := None\<rparr>) = Some [TopicStr ''Store'']
   \<and> topic0 (storeLog ''1'') = Some ''Store''
   \<and> filterEventFromLog [storeLog ''1''] (storeFilter ''1'') = Inr [storeResult ''1'']"
  by code_simp

section \<open>Properties of the value matcher\<close>

lemma nullFreeList_nth: "nullFreeList vs \<Longrightarrow> i < length vs \<Longrightarrow> nullFree (vs ! i)"
  by (induction vs arbitrary: i) (auto simp: nth_Cons split: nat.splits)

lemma nullFreeProps_map_of: "nullFreeProps ps \<Longrightarrow> map_of ps k = Some v \<Longrightarrow> nullFree v"
  by (induction ps) (auto split: if_splits)

lemma find_upt_Some: "List.find P [0..<n] = Some i \<Longrightarrow> i < n"
  by (auto simp: find_Some_iff)

lemma getOwnProp_nullFree:
  assumes "nullFree v" and "getOwnProp v k = Inr y"
  shows "nullFree y"
proof (cases v)
  case (JStr s)
  with assms(2) show ?thesis by (auto split: option.splits if_splits)
next
  case (JArr es ps)
  with assms(1) have es: "nullFreeList es" and ps: "nullFreeProps ps" by simp_all
  show ?thesis
  proof (cases "List.find (\<lambda>i. natToString i = k) [0..<length es]")
    case (Some i)
    then have "i < length es" by (rule find_upt_Some)
    with es have "nullFree (es ! i)" by (rule nullFreeList_nth)
    with assms(2) JArr Some show ?thesis by simp
  next
    case None
    show ?thesis
    proof (cases "map_of ps k")
      case (Some w)
      with ps have "nullFree w" by (rule nullFreeProps_map_of)
      with assms(2) JArr None Some show ?thesis by (auto split: if_splits)
    next
      case None': None
      with assms(2) JArr None show ?thesis by (auto split: if_splits)
    qed
  qed
next
  case (JObj ps)
  with assms(1) have ps: "nullFreeProps ps" by simp
  show ?thesis
  proof (cases "map_of ps k")
    case (Some w)
    with ps have "nullFree w" by (rule nullFreeProps_map_of)
    with assms(2) JObj Some show ?thesis by simp
  next
    case None
    with assms(2) JObj show ?thesis by auto
  qed
qed (use assms in auto)

lemma getIndex_nullFree:
  assumes "nullFree v" and "getIndex v i = Inr y"
  shows "nullFree y"
proof (cases v)
  case (JStr s)
  with assms(2) show ?thesis by (auto split: if_splits)
next
  case (JArr es ps)
  with assms(1) have es: "nullFreeList es" by simp
  show ?thesis
  proof (cases "i < length es")
    case True
    with es have "nullFree (es ! i)" by (rule nullFreeList_nth)
    with assms(2) JArr True show ?thesis by simp
  next
    case False
    with assms(2) JArr show ?thesis by auto
  qed
next
  case (JObj ps)
  with assms(1) have ps: "nullFreeProps ps" by simp
  show ?thesis
  proof (cases "map_of ps (natToString i)")
    case (Some w)
    with ps have "nullFree w" by (rule nullFreeProps_map_of)
    with assms(2) JObj Some show ?thesis by simp
  next
    case None
    with assms(2) JObj show ?thesis by auto
  qed
qed (use assms in auto)

lemma getOwnProp_object_total:
  "typeof v = TObject \<Longrightarrow> nullFree v \<Longrightarrow> \<exists>y. getOwnProp v k = Inr y"
  by (cases v) auto

lemma getOwnPropertyNames_object_total:
  "typeof v = TObject \<Longrightarrow> nullFree v \<Longrightarrow> \<exists>ks. getOwnPropertyNames v = Inr ks"
  by (cases v) auto

lemma isDeepEqual_total_aux:
  "(nullFree v0 \<longrightarrow> nullFree v1 \<longrightarrow> (\<exists>b. isDeepEqual v0 v1 = Inr b))"
  "(nullFreeList a0 \<longrightarrow> nullFreeList a1 \<longrightarrow> (\<exists>b. someNotEqual a0 a1 = Inr b))"
  "(nullFreeProps p0 \<longrightarrow> nullFree w1 \<longrightarrow> typeof w1 = TObject \<longrightarrow>
      (\<exists>b. keysEqual p0 w1 k1 = Inr b))"
proof (induction v0 v1 and a0 a1 and p0 w1 k1 rule: isDeepEqual_someNotEqual_keysEqual.induct)
  case (1 v0 v1)
  show ?case
  proof (intro impI)
    assume n0: "nullFree v0" and n1: "nullFree v1"
    show "\<exists>b. isDeepEqual v0 v1 = Inr b"
    proof (cases "typeof v0 \<noteq> typeof v1 \<or> typeof v0 \<noteq> TObject")
      case True
      then show ?thesis by (auto simp: isDeepEqual.simps(1))
    next
      case False
      then have t: "typeof v0 = typeof v1" "typeof v0 = TObject" by auto
      show ?thesis
      proof (cases v0)
        case (JArr a0 m0)
        show ?thesis
        proof (cases v1)
          case (JArr a1 m1)
          show ?thesis
          proof (cases "length a0 = length a1")
            case True
            from "1.IH"(1)[OF _ _ \<open>v0 = JArr a0 m0\<close> \<open>v1 = JArr a1 m1\<close> True] t n0 n1
            obtain b where "someNotEqual a0 a1 = Inr b"
              using \<open>v0 = JArr a0 m0\<close> \<open>v1 = JArr a1 m1\<close> by auto
            then show ?thesis
              using \<open>v0 = JArr a0 m0\<close> \<open>v1 = JArr a1 m1\<close> True
              by (simp add: isDeepEqual.simps(1))
          next
            case False
            then show ?thesis
              using \<open>v0 = JArr a0 m0\<close> \<open>v1 = JArr a1 m1\<close>
              by (auto simp: isDeepEqual.simps(1))
          qed
        qed (use JArr in \<open>auto simp: isDeepEqual.simps(1)\<close>)
      next
        case (JObj p0)
        from t n1 obtain ks where ks: "getOwnPropertyNames v1 = Inr ks"
          using getOwnPropertyNames_object_total by metis
        show ?thesis
        proof (cases "length p0 \<noteq> length ks")
          case True
          then show ?thesis using JObj ks t by (auto simp: isDeepEqual.simps(1))
        next
          case False
          from "1.IH"(2)[OF _ _ JObj ks False] t n0 n1 JObj
          obtain b where "keysEqual p0 v1 ks = Inr b" by auto
          then show ?thesis using JObj ks t False by (simp add: isDeepEqual.simps(1))
        qed
      qed (use t n0 in auto)
    qed
  qed
next
  case (2 a1)
  show ?case by auto
next
  case (3 x a0 a1)
  show ?case
  proof (intro impI)
    assume n0: "nullFreeList (x # a0)" and n1: "nullFreeList a1"
    let ?y = "case a1 of [] \<Rightarrow> JUndefined | y # _ \<Rightarrow> y"
    have ny: "nullFree ?y" using n1 by (cases a1) auto
    have nt: "nullFreeList (tl a1)" using n1 by (cases a1) auto
    from "3.IH"(1) n0 ny obtain b where b: "isDeepEqual x ?y = Inr b" by auto
    show "\<exists>b. someNotEqual (x # a0) a1 = Inr b"
    proof (cases b)
      case True
      from "3.IH"(2)[OF b] True n0 nt obtain c where "someNotEqual a0 (tl a1) = Inr c" by auto
      with b True show ?thesis by auto
    next
      case False
      with b show ?thesis by auto
    qed
  qed
next
  case (4 v1 k1)
  show ?case by auto
next
  case (5 key x p0 v1 k1)
  show ?case
  proof (intro impI)
    assume n0: "nullFreeProps ((key, x) # p0)" and n1: "nullFree v1" and t: "typeof v1 = TObject"
    show "\<exists>b. keysEqual ((key, x) # p0) v1 k1 = Inr b"
    proof (cases "key \<in> set k1")
      case False
      then show ?thesis by auto
    next
      case True
      from getOwnProp_object_total[OF t n1] obtain y where y: "getOwnProp v1 key = Inr y" by blast
      from getOwnProp_nullFree[OF n1 y] have ny: "nullFree y" .
      from "5.IH"(1)[OF _ y] True n0 ny obtain b where b: "isDeepEqual x y = Inr b" by auto
      show ?thesis
      proof (cases b)
        case True
        from "5.IH"(2)[OF _ y b] \<open>key \<in> set k1\<close> True n0 n1 t
        obtain c where "keysEqual p0 v1 k1 = Inr c" by auto
        with y b True \<open>key \<in> set k1\<close> show ?thesis by auto
      next
        case False
        with y b \<open>key \<in> set k1\<close> show ?thesis by auto
      qed
    qed
  qed
qed

lemma isDeepEqual_total_without_null:
  "nullFree v0 \<Longrightarrow> nullFree v1 \<Longrightarrow> \<exists>b. isDeepEqual v0 v1 = Inr b"
  using isDeepEqual_total_aux(1) by blast

lemma getIndex_total:
  "nullFree v \<Longrightarrow> v \<noteq> JUndefined \<Longrightarrow> \<exists>y. getIndex v i = Inr y"
  by (cases v) auto

lemma somePropertyDiffers_total_without_null:
  assumes "nullFree actual" and "actual \<noteq> JUndefined"
    and "\<forall>v \<in> set expected. isNullish v \<or> nullFree v"
  shows "\<exists>b. somePropertyDiffers actual expected index = Inr b"
  using assms(3)
proof (induction expected arbitrary: index)
  case Nil
  show ?case by auto
next
  case (Cons v expected)
  from Cons.prems have ih: "\<And>i. \<exists>b. somePropertyDiffers actual expected i = Inr b"
    by (intro Cons.IH) simp
  show ?case
  proof (cases "isNullish v")
    case True
    with ih[of "Suc index"] show ?thesis by simp
  next
    case False
    with Cons.prems have nv: "nullFree v" by simp
    from getIndex_total[OF assms(1,2)] obtain a where a: "getIndex actual index = Inr a"
      by blast
    from getIndex_nullFree[OF assms(1) a] have "nullFree a" .
    with nv obtain b where b: "isDeepEqual v a = Inr b"
      using isDeepEqual_total_without_null by blast
    from ih[of "Suc index"] obtain c where "somePropertyDiffers actual expected (Suc index) = Inr c"
      by blast
    with False a b show ?thesis by (cases b) auto
  qed
qed

text \<open>
  Where no \<^verbatim>\<open>null\<close> is nested in the values, the matcher is total: expected values
  that are \<^verbatim>\<open>null\<close> or \<^verbatim>\<open>undefined\<close> at the top level, or hold no \<^verbatim>\<open>null\<close>,
  compared with a decoded value that holds none.
\<close>

lemma matchProperties_total_without_null:
  assumes "nullFree actual" and "actual \<noteq> JUndefined"
    and "\<forall>v \<in> set expected. isNullish v \<or> nullFree v"
  shows "\<exists>b. matchProperties actual expected = Inr b"
proof -
  from somePropertyDiffers_total_without_null[OF assms] obtain b where
    "somePropertyDiffers actual expected 0 = Inr b" by blast
  then show ?thesis by (simp add: matchProperties_def)
qed

subsection \<open>A nested null throws (claim C7)\<close>

text \<open>
  Claim C7 fails on the code. \<^verbatim>\<open>typeof null\<close> is \<^verbatim>\<open>'object'\<close>, so a
  \<^verbatim>\<open>null\<close> below the top level of the expected values, compared with an object, an
  array or \<^verbatim>\<open>null\<close>, reaches \<^verbatim>\<open>Object.getOwnPropertyNames(null)\<close>, which throws
  a \<^verbatim>\<open>TypeError\<close>. Here the expected non-indexed values are \<^verbatim>\<open>[[null]]\<close> and the
  decoded event is \<^verbatim>\<open>[[BigNumber]]\<close>.
\<close>

theorem matchProperties_throws_on_nested_null:
  "matchProperties (JArr [JArr [bigNumber5] []] []) [JArr [JNull] []] = Inl TypeError
   \<and> isDeepEqual JNull bigNumber5 = Inl TypeError
   \<and> isDeepEqual JNull JNull = Inl TypeError"
  by code_simp

section \<open>Properties of the filter builder\<close>

lemma natToString_starts_with_digit:
  "\<exists>c cs. natToString n = c # cs \<and> 48 \<le> (of_char c :: nat) \<and> (of_char c :: nat) \<le> 57"
proof (induction n rule: natToString.induct)
  case (1 n)
  show ?case
  proof (cases "n < 10")
    case True
    then show ?thesis by (subst natToString.simps) simp
  next
    case False
    from "1.IH"[OF False] obtain c cs where
      "natToString (n div 10) = c # cs" "48 \<le> (of_char c :: nat)" "(of_char c :: nat) \<le> 57"
      by blast
    with False show ?thesis by (subst natToString.simps) simp
  qed
qed

lemma index_key_parses: "\<not> isNaNparseInt (natToString i)"
proof -
  from natToString_starts_with_digit[of i] obtain c cs where
    s: "natToString i = c # cs" and d: "48 \<le> (of_char c :: nat)" "(of_char c :: nat) \<le> 57"
    by blast
  from d have w: "\<not> isWhiteSpace c" by (auto simp: isWhiteSpace_def)
  have "of_char (CHR ''+'') = (43 :: nat)" "of_char (CHR ''-'') = (45 :: nat)" by simp_all
  with d have pm: "c \<noteq> CHR ''+''" "c \<noteq> CHR ''-''" by auto
  from s w pm d show ?thesis by (simp add: isNaNparseInt_def isDigit_def)
qed

lemma forEachParam_positional:
  assumes "\<forall>p \<in> set ps. getProp lib (JArr vs []) (nameKey p) = Inr JUndefined"
    and "i + length ps = length vs" and "\<forall>v \<in> set vs. \<not> isNullish v"
  shows "forEachParam lib (JArr vs []) ps i st =
           Inr (st\<lparr>indexedArgs := indexedArgs st @ topicArgs ps (drop i vs),
                   nonIndexedArgs := nonIndexedArgs st @ valueArgs ps (drop i vs),
                   hasNonIndexed := (hasNonIndexed st \<or> (\<exists>p \<in> set ps. \<not> indexed p))\<rparr>)"
  using assms
proof (induction ps arbitrary: i st)
  case Nil
  then show ?case by (simp add: topicArgs_def valueArgs_def)
next
  case (Cons p ps)
  from Cons.prems(2) have i: "i < length vs" by simp
  with Cons.prems(3) have nn: "\<not> isNullish (vs ! i)" by simp
  then have nz: "vs ! i \<noteq> JNull" by (auto simp: isNullish_def)
  have d: "drop i vs = vs ! i # drop (Suc i) vs" using i by (simp add: Cons_nth_drop_Suc)
  from Cons.prems(1) have g: "getProp lib (JArr vs []) (nameKey p) = Inr JUndefined" by simp
  let ?st1 = "if indexed p
        then st\<lparr>indexedArgs := indexedArgs st @ [vs ! i],
                nonIndexedArgs := nonIndexedArgs st @ [JNull],
                namedCount := namedCount st\<rparr>
        else st\<lparr>indexedArgs := indexedArgs st @ [JNull],
                nonIndexedArgs := nonIndexedArgs st @ [vs ! i],
                hasNonIndexed := True,
                namedCount := namedCount st\<rparr>"
  have step: "buildParam lib (JArr vs []) p i st = Inr ?st1"
    using g i nn nz by (simp add: buildParam_def isArray_def Let_def)
  have rest: "forEachParam lib (JArr vs []) ps (Suc i) ?st1 =
           Inr (?st1\<lparr>indexedArgs := indexedArgs ?st1 @ topicArgs ps (drop (Suc i) vs),
                   nonIndexedArgs := nonIndexedArgs ?st1 @ valueArgs ps (drop (Suc i) vs),
                   hasNonIndexed := (hasNonIndexed ?st1 \<or> (\<exists>p \<in> set ps. \<not> indexed p))\<rparr>)"
    using Cons.prems by (intro Cons.IH) auto
  show ?case
    using step rest d by (simp add: topicArgs_def valueArgs_def)
qed

lemma getProp_of_object:
  assumes "map_of kvs k = Some w"
  shows "getProp lib (JObj kvs) k = Inr w"
proof -
  from assms have "(k, w) \<in> set kvs" by (rule map_of_SomeD)
  then have "k \<in> set (map fst kvs)" by force
  with assms show ?thesis by (simp add: getProp_def)
qed

lemma forEachParam_named:
  assumes "list_all2 (\<lambda>p w. map_of kvs (nameKey p) = Some w) ps ws"
    and "\<forall>v \<in> set ws. \<not> isNullish v"
  shows "forEachParam lib (JObj kvs) ps i st =
           Inr (st\<lparr>indexedArgs := indexedArgs st @ topicArgs ps ws,
                   nonIndexedArgs := nonIndexedArgs st @ valueArgs ps ws,
                   hasNonIndexed := (hasNonIndexed st \<or> (\<exists>p \<in> set ps. \<not> indexed p)),
                   namedCount := namedCount st - int (length ps)\<rparr>)"
  using assms
proof (induction ps ws arbitrary: i st rule: list_all2_induct)
  case Nil
  then show ?case by (simp add: topicArgs_def valueArgs_def)
next
  case (Cons p ps w ws)
  from Cons.prems have nn: "\<not> isNullish w" by simp
  then have nz: "w \<noteq> JNull" "w \<noteq> JUndefined" by (auto simp: isNullish_def)
  let ?st1 = "if indexed p
        then st\<lparr>indexedArgs := indexedArgs st @ [w],
                nonIndexedArgs := nonIndexedArgs st @ [JNull],
                namedCount := namedCount st - 1\<rparr>
        else st\<lparr>indexedArgs := indexedArgs st @ [JNull],
                nonIndexedArgs := nonIndexedArgs st @ [w],
                hasNonIndexed := True,
                namedCount := namedCount st - 1\<rparr>"
  have step: "buildParam lib (JObj kvs) p i st = Inr ?st1"
    using getProp_of_object[OF Cons.hyps(1), of lib] nz
    by (simp add: buildParam_def isArray_def isNullish_def Let_def)
  have rest: "forEachParam lib (JObj kvs) ps (Suc i) ?st1 =
           Inr (?st1\<lparr>indexedArgs := indexedArgs ?st1 @ topicArgs ps ws,
                   nonIndexedArgs := nonIndexedArgs ?st1 @ valueArgs ps ws,
                   hasNonIndexed := (hasNonIndexed ?st1 \<or> (\<exists>p \<in> set ps. \<not> indexed p)),
                   namedCount := namedCount ?st1 - int (length ps)\<rparr>)"
    using Cons.prems by (intro Cons.IH) auto
  show ?case
    using step rest by (simp add: topicArgs_def valueArgs_def)
qed

lemma buildFilterArgs_positional:
  assumes "inputs fragment = ps" and "length vs = length ps"
    and "\<forall>v \<in> set vs. \<not> isNullish v"
    and "\<forall>p \<in> set ps. getProp lib (JArr vs []) (nameKey p) = Inr JUndefined"
  shows "buildFilterArgs lib fragment (JArr vs []) =
           Inr (topicArgs ps vs,
                if \<exists>p \<in> set ps. \<not> indexed p then Some (valueArgs ps vs) else None)"
proof (cases "ps = []")
  case True
  with assms show ?thesis
    by (simp add: buildFilterArgs_def isArray_def arrayLength_def topicArgs_def valueArgs_def)
next
  case False
  have keys: "filter (\<lambda>key. \<not> isArray (JArr vs []) \<or> isNaNparseInt key)
                (forInKeys (JArr vs [])) = []"
    by (simp add: isArray_def index_key_parses filter_empty_conv)
  have loop: "forEachParam lib (JArr vs []) ps 0
                \<lparr>indexedArgs = [], nonIndexedArgs = [], hasNonIndexed = False, namedCount = 0\<rparr> =
              Inr \<lparr>indexedArgs = topicArgs ps vs, nonIndexedArgs = valueArgs ps vs,
                   hasNonIndexed = (\<exists>p \<in> set ps. \<not> indexed p), namedCount = 0\<rparr>"
    using assms(2,3,4) by (subst forEachParam_positional) simp_all
  from False assms(2) have pos: "0 < length vs" by simp
  show ?thesis
    unfolding buildFilterArgs_def keys
    using assms(1,2) pos loop
    by (simp add: isArray_def arrayLength_def)
qed

lemma buildFilterArgs_named:
  assumes "inputs fragment = ps" and "length vs = length ps"
    and "\<forall>v \<in> set vs. \<not> isNullish v"
    and "distinct (map nameKey ps)"
  shows "buildFilterArgs lib fragment (JObj (zip (map nameKey ps) vs)) =
           Inr (topicArgs ps vs,
                if \<exists>p \<in> set ps. \<not> indexed p then Some (valueArgs ps vs) else None)"
proof (cases "ps = []")
  case True
  with assms show ?thesis
    by (simp add: buildFilterArgs_def isArray_def arrayLength_def topicArgs_def valueArgs_def)
next
  case False
  let ?kvs = "zip (map nameKey ps) vs"
  have keys: "filter (\<lambda>key. \<not> isArray (JObj ?kvs) \<or> isNaNparseInt key)
                (forInKeys (JObj ?kvs)) = map nameKey ps"
    using assms(2) by (simp add: isArray_def)
  have look: "list_all2 (\<lambda>p w. map_of ?kvs (nameKey p) = Some w) ps vs"
    unfolding list_all2_conv_all_nth
  proof (intro conjI allI impI)
    show "length ps = length vs" using assms(2) by simp
  next
    fix k assume k: "k < length ps"
    have "map_of (zip (map nameKey ps) vs) (map nameKey ps ! k) = Some (vs ! k)"
      using assms(2,4) k by (intro map_of_zip_nth) simp_all
    with k show "map_of ?kvs (nameKey (ps ! k)) = Some (vs ! k)" by simp
  qed
  have loop: "forEachParam lib (JObj ?kvs) ps 0
                \<lparr>indexedArgs = [], nonIndexedArgs = [], hasNonIndexed = False,
                 namedCount = int (length ps)\<rparr> =
              Inr \<lparr>indexedArgs = topicArgs ps vs, nonIndexedArgs = valueArgs ps vs,
                   hasNonIndexed = (\<exists>p \<in> set ps. \<not> indexed p), namedCount = 0\<rparr>"
    using assms(3) by (subst forEachParam_named[OF look]) simp_all
  from False have pos: "0 < length ps" by simp
  show ?thesis
    unfolding buildFilterArgs_def keys
    using assms(1) pos loop
    by (simp add: isArray_def arrayLength_def)
qed

subsection \<open>A parameter named length (claim C8)\<close>

text \<open>
  Claim C8 fails on the code for a signature with a parameter named \<^verbatim>\<open>length\<close>.
  \<^verbatim>\<open>_buildFilterArgs\<close> reads \<^verbatim>\<open>properties[param.name]\<close> also from a positional
  specification, an array, whose own property \<^verbatim>\<open>length\<close> is its number of elements.
  For \<^verbatim>\<open>Resized(uint256 length)\<close> the positional form \<^verbatim>\<open>[5]\<close> fails (whatever the
  equality of chai makes of \<^verbatim>\<open>1\<close> and \<^verbatim>\<open>5\<close>), while the named form
  \<^verbatim>\<open>{length: 5}\<close> builds the constraints.
\<close>

theorem buildFilterArgs_positional_fails_for_length:
  "isl (buildFilterArgs lib lengthFragment (JArr [JNum 5] []))
   \<and> buildFilterArgs lib lengthFragment (JObj [(''length'', JNum 5)]) =
       Inr ([JNull], Some [JNum 5])"
proof
  have k: "natToString 0 = ''0''" "isNaNparseInt ''0'' = False"
    by code_simp+
  have g: "getProp lib (JArr [JNum 5] []) ''length'' = Inr (JNum 1)" by code_simp
  show "isl (buildFilterArgs lib lengthFragment (JArr [JNum 5] []))"
    by (cases "chaiEq lib (JNum 1) (JNum 5)")
       (simp_all add: buildFilterArgs_def buildParam_def lengthFragment_def isArray_def
          arrayLength_def nameKey_def isNullish_def k g Let_def
          del: natToString.simps)
next
  show "buildFilterArgs lib lengthFragment (JObj [(''length'', JNum 5)]) =
       Inr ([JNull], Some [JNum 5])"
    by code_simp
qed

text \<open>The same with the strict equality of the example library.\<close>

theorem buildFilterArgs_positional_fails_for_length_witness:
  "isl (buildFilterArgs exampleLibrary lengthFragment (JArr [JNum 5] []))
   \<and> buildFilterArgs exampleLibrary lengthFragment (JObj [(''length'', JNum 5)]) =
       Inr ([JNull], Some [JNum 5])"
  by (rule buildFilterArgs_positional_fails_for_length)

text \<open>
  Apart from such names the two forms agree. For a fully specified assignment (as many
  values as parameters, none of them \<^verbatim>\<open>null\<close> or \<^verbatim>\<open>undefined\<close>) to a signature
  whose parameter names are pairwise different, and none of which the positional array
  has as a property, own (an index, \<^verbatim>\<open>length\<close>) or inherited (\<^verbatim>\<open>values\<close>), the
  positional and the named form build the same topic arguments and the same non-indexed
  constraints.
\<close>

lemma buildFilterArgs_round_trip:
  assumes "length vs = length (inputs fragment)"
    and "\<forall>v \<in> set vs. \<not> isNullish v"
    and "distinct (map nameKey (inputs fragment))"
    and "\<forall>p \<in> set (inputs fragment). getProp lib (JArr vs []) (nameKey p) = Inr JUndefined"
  shows "buildFilterArgs lib fragment (JArr vs []) =
           buildFilterArgs lib fragment (JObj (zip (map nameKey (inputs fragment)) vs))"
  using buildFilterArgs_positional[OF refl assms(1,2,4)]
        buildFilterArgs_named[OF refl assms(1,2,3)]
  by simp

section \<open>Properties of the event factory\<close>

text \<open>
  What \<^verbatim>\<open>_verifyByFragment\<close> accepts: for every input of the fragment, the value read
  at its index is defined and, when the input has a name, so is the value read under the
  name.
\<close>

lemma verifyInputs_accepts:
  "verifyInputs lib ps i args = Inr () \<longleftrightarrow>
     (\<forall>k<length ps.
        (\<exists>v. getIndex args (i + k) = Inr v \<and> v \<noteq> JUndefined) \<and>
        (hasName (ps ! k) \<longrightarrow>
           (\<exists>w. getProp lib args (nameKey (ps ! k)) = Inr w \<and> w \<noteq> JUndefined)))"
proof (induction ps arbitrary: i)
  case Nil
  show ?case by simp
next
  case (Cons p ps)
  have tail: "verifyInputs lib ps (Suc i) args = Inr () \<longleftrightarrow>
     (\<forall>k<length ps.
        (\<exists>v. getIndex args (i + Suc k) = Inr v \<and> v \<noteq> JUndefined) \<and>
        (hasName ((p # ps) ! Suc k) \<longrightarrow>
           (\<exists>w. getProp lib args (nameKey ((p # ps) ! Suc k)) = Inr w \<and> w \<noteq> JUndefined)))"
    using Cons.IH[of "Suc i"] by simp
  show ?case
    unfolding length_Cons All_less_Suc2 tail[symmetric]
    by (auto split: sum.splits)
qed

lemma verifyByFragment_accepts:
  "verifyByFragment lib fragment args = Inr () \<longleftrightarrow>
     (\<forall>i<length (inputs fragment).
        (\<exists>v. getIndex args i = Inr v \<and> v \<noteq> JUndefined) \<and>
        (hasName (inputs fragment ! i) \<longrightarrow>
           (\<exists>w. getProp lib args (nameKey (inputs fragment ! i)) = Inr w \<and>
                w \<noteq> JUndefined)))"
  unfolding verifyByFragment_def verifyInputs_accepts by simp

lemma verifyArgs_unexpected:
  "verifyArgs lib n emitter arg JUndefined = Inr a \<longleftrightarrow>
     a = arg \<and>
     (\<exists>fragment. getEvent (contract_interface emitter) n = Inr fragment \<and>
                 verifyByFragment lib fragment arg = Inr ())"
  by (auto simp: verifyArgs_def isNullish_def split: sum.splits)

lemma verifyEach_accepts:
  "verifyEach lib n emitter args = Inr () \<longleftrightarrow>
     (\<forall>arg \<in> set args. verifyArgs lib n emitter arg JUndefined = Inr arg)"
proof (induction args)
  case Nil
  show ?case by simp
next
  case (Cons arg args)
  show ?case
  proof (cases "verifyArgs lib n emitter arg JUndefined")
    case (Inl e)
    then show ?thesis by simp
  next
    case (Inr a)
    then have "a = arg" by (simp add: verifyArgs_unexpected)
    with Inr Cons.IH show ?thesis by simp
  qed
qed

subsection \<open>What all verifies (claim C9)\<close>

text \<open>
  Claim C9, as the code has it. With no transform function, \<^verbatim>\<open>all\<close> returns the
  decoded events exactly when every one of them passes the rule of
  \<^verbatim>\<open>_verifyByFragment\<close>: for every parameter the signature declares, the value read
  from the decoded event at the parameter's index is not \<^verbatim>\<open>undefined\<close> and, when the
  parameter has a name, the value read under that name is not \<^verbatim>\<open>undefined\<close> either
  (a read that, as every property read, also finds what the event inherits). With a
  transform function, \<^verbatim>\<open>all\<close> hands the decoded events to it as they are, and returns
  what it returns: nothing is verified.
\<close>

theorem all_verifies_without_transform:
  "(all lib n emitter receipt None = Inr r \<longleftrightarrow>
      (\<exists>args fragment. r = Events args \<and> findEventArgs lib n receipt emitter = Inr args \<and>
         getEvent (contract_interface emitter) n = Inr fragment \<and>
         (\<forall>arg \<in> set args. \<forall>i<length (inputs fragment).
            (\<exists>v. getIndex arg i = Inr v \<and> v \<noteq> JUndefined) \<and>
            (hasName (inputs fragment ! i) \<longrightarrow>
               (\<exists>w. getProp lib arg (nameKey (inputs fragment ! i)) = Inr w \<and>
                    w \<noteq> JUndefined)))))
   \<and> all lib n emitter receipt (Some f) =
       (case findEventArgs lib n receipt emitter of
          Inl e \<Rightarrow> Inl e
        | Inr args \<Rightarrow> (case f args of Inl e \<Rightarrow> Inl e | Inr t \<Rightarrow> Inr (Transformed t)))"
proof (intro conjI iffI)
  assume a: "all lib n emitter receipt None = Inr r"
  then obtain args u where args: "findEventArgs lib n receipt emitter = Inr args"
    and v: "verifyEach lib n emitter args = Inr u" and r: "r = Events args"
    by (auto simp: all_def split: sum.splits)
  from args obtain fragment where fr: "getEvent (contract_interface emitter) n = Inr fragment"
    by (auto simp: findEventArgs_def split: sum.splits)
  from v have each: "\<forall>arg \<in> set args. verifyArgs lib n emitter arg JUndefined = Inr arg"
    by (simp add: verifyEach_accepts)
  have "\<forall>arg \<in> set args. verifyByFragment lib fragment arg = Inr ()"
    using each fr by (auto simp: verifyArgs_unexpected)
  then have "\<forall>arg \<in> set args. \<forall>i<length (inputs fragment).
            (\<exists>v. getIndex arg i = Inr v \<and> v \<noteq> JUndefined) \<and>
            (hasName (inputs fragment ! i) \<longrightarrow>
               (\<exists>w. getProp lib arg (nameKey (inputs fragment ! i)) = Inr w \<and>
                    w \<noteq> JUndefined))"
    by (simp add: verifyByFragment_accepts)
  with args fr r show "\<exists>args fragment. r = Events args \<and>
         findEventArgs lib n receipt emitter = Inr args \<and>
         getEvent (contract_interface emitter) n = Inr fragment \<and>
         (\<forall>arg \<in> set args. \<forall>i<length (inputs fragment).
            (\<exists>v. getIndex arg i = Inr v \<and> v \<noteq> JUndefined) \<and>
            (hasName (inputs fragment ! i) \<longrightarrow>
               (\<exists>w. getProp lib arg (nameKey (inputs fragment ! i)) = Inr w \<and>
                    w \<noteq> JUndefined)))" by blast
next
  assume "\<exists>args fragment. r = Events args \<and>
         findEventArgs lib n receipt emitter = Inr args \<and>
         getEvent (contract_interface emitter) n = Inr fragment \<and>
         (\<forall>arg \<in> set args. \<forall>i<length (inputs fragment).
            (\<exists>v. getIndex arg i = Inr v \<and> v \<noteq> JUndefined) \<and>
            (hasName (inputs fragment ! i) \<longrightarrow>
               (\<exists>w. getProp lib arg (nameKey (inputs fragment ! i)) = Inr w \<and>
                    w \<noteq> JUndefined)))"
  then obtain args fragment where r: "r = Events args"
    and args: "findEventArgs lib n receipt emitter = Inr args"
    and fr: "getEvent (contract_interface emitter) n = Inr fragment"
    and ok: "\<forall>arg \<in> set args. \<forall>i<length (inputs fragment).
            (\<exists>v. getIndex arg i = Inr v \<and> v \<noteq> JUndefined) \<and>
            (hasName (inputs fragment ! i) \<longrightarrow>
               (\<exists>w. getProp lib arg (nameKey (inputs fragment ! i)) = Inr w \<and>
                    w \<noteq> JUndefined))"
    by blast
  from ok have "\<forall>arg \<in> set args. verifyByFragment lib fragment arg = Inr ()"
    by (simp add: verifyByFragment_accepts)
  with fr have "\<forall>arg \<in> set args. verifyArgs lib n emitter arg JUndefined = Inr arg"
    by (simp add: verifyArgs_unexpected)
  then have "verifyEach lib n emitter args = Inr ()"
    by (simp add: verifyEach_accepts)
  with args r show "all lib n emitter receipt None = Inr r"
    by (simp add: all_def)
next
  show "all lib n emitter receipt (Some f) =
       (case findEventArgs lib n receipt emitter of
          Inl e \<Rightarrow> Inl e
        | Inr args \<Rightarrow> (case f args of Inl e \<Rightarrow> Inl e | Inr t \<Rightarrow> Inr (Transformed t)))"
    by (simp add: all_def split: sum.splits)
qed

text \<open>
  The theorem at a receipt with the log \<^verbatim>\<open>Batch(1)\<close>: the decoded event
  \<^verbatim>\<open>[[1]]\<close> has its parameter at index 0 and, under the name \<^verbatim>\<open>values\<close>, the
  method every array inherits, so \<^verbatim>\<open>all\<close> returns it. And at a receipt with the log
  \<^verbatim>\<open>Store(1)\<close>: the transform that returns its argument gets the decoded event.
\<close>

theorem all_verifies_without_transform_witness:
  "all exampleLibrary ''Batch'' batchContract \<lparr>logs = [batchLog ''1'']\<rparr> noTransform =
     Inr (Events [batchResult ''1''])
   \<and> all exampleLibrary ''Store'' (storeContract storeResult) \<lparr>logs = [storeLog ''1'']\<rparr>
       (Some passOn) = Inr (Transformed [storeResult ''1''])"
proof -
  let ?b = "\<lparr>logs = [batchLog ''1'']\<rparr>"
  let ?r = "\<lparr>logs = [storeLog ''1'']\<rparr>"
  let ?c = "storeContract storeResult"
  have found: "findEventArgs exampleLibrary ''Batch'' ?b batchContract =
                 Inr [batchResult ''1'']"
    by code_simp
  have g: "getEvent (contract_interface batchContract) ''Batch'' = Inr batchFragment"
    by code_simp
  have at0: "getIndex (batchResult ''1'') 0 = Inr (JArr [JStr ''1''] [])" by code_simp
  have named: "getProp exampleLibrary (batchResult ''1'') ''values'' =
                 Inr (JFun ''Array.prototype.values'')"
    by code_simp
  have ins: "inputs batchFragment = [\<lparr>param_name = Some ''values'', indexed = False\<rparr>]"
    by (simp add: batchFragment_def)
  have ok: "\<forall>arg \<in> set [batchResult ''1'']. \<forall>i<length (inputs batchFragment).
            (\<exists>v. getIndex arg i = Inr v \<and> v \<noteq> JUndefined) \<and>
            (hasName (inputs batchFragment ! i) \<longrightarrow>
               (\<exists>w. getProp exampleLibrary arg (nameKey (inputs batchFragment ! i)) = Inr w \<and>
                    w \<noteq> JUndefined))"
    using at0 named by (simp add: ins nameKey_def)
  note w = all_verifies_without_transform[of exampleLibrary _ _ _ _ passOn]
  have "\<exists>args fragment. Events [batchResult ''1''] = Events args \<and>
         findEventArgs exampleLibrary ''Batch'' ?b batchContract = Inr args \<and>
         getEvent (contract_interface batchContract) ''Batch'' = Inr fragment \<and>
         (\<forall>arg \<in> set args. \<forall>i<length (inputs fragment).
            (\<exists>v. getIndex arg i = Inr v \<and> v \<noteq> JUndefined) \<and>
            (hasName (inputs fragment ! i) \<longrightarrow>
               (\<exists>w. getProp exampleLibrary arg (nameKey (inputs fragment ! i)) = Inr w \<and>
                    w \<noteq> JUndefined)))"
    using found g ok by blast
  with w[THEN conjunct1, of "''Batch''" batchContract ?b "Events [batchResult ''1'']"]
  have p1: "all exampleLibrary ''Batch'' batchContract ?b noTransform =
              Inr (Events [batchResult ''1''])"
    unfolding noTransform_def by (rule iffD2)
  have "(case findEventArgs exampleLibrary ''Store'' ?r ?c of
          Inl e \<Rightarrow> Inl e
        | Inr args \<Rightarrow> (case passOn args of Inl e \<Rightarrow> Inl e | Inr t \<Rightarrow> Inr (Transformed t)))
        = Inr (Transformed [storeResult ''1''])" by code_simp
  with w[THEN conjunct2, of "''Store''" ?c ?r]
  have p2: "all exampleLibrary ''Store'' ?c ?r (Some passOn) =
              Inr (Transformed [storeResult ''1''])" by (rule trans)
  from p1 p2 show ?thesis by (rule conjI)
qed

text \<open>
  Claim C9 as stated fails for a transform function. When the decoder returns an empty
  \<^verbatim>\<open>Result\<close> for the log \<^verbatim>\<open>Store(1)\<close>, the value read at index 0, the index of
  the declared parameter \<^verbatim>\<open>value\<close>, is \<^verbatim>\<open>undefined\<close>; yet \<^verbatim>\<open>all\<close> with the
  transform that returns its argument returns that result. With no transform the same
  call fails.
\<close>

theorem all_with_transform_skips_verification:
  "all exampleLibrary ''Store'' (storeContract emptyResult) \<lparr>logs = [storeLog ''1'']\<rparr>
     (Some passOn) = Inr (Transformed [JArr [] []])
   \<and> getEvent (contract_interface (storeContract emptyResult)) ''Store'' = Inr storeFragment
   \<and> inputs storeFragment = [\<lparr>param_name = Some ''value'', indexed = False\<rparr>]
   \<and> getIndex (JArr [] []) 0 = Inr JUndefined
   \<and> getProp exampleLibrary (JArr [] []) ''value'' = Inr JUndefined
   \<and> all exampleLibrary ''Store'' (storeContract emptyResult) \<lparr>logs = [storeLog ''1'']\<rparr>
       noTransform = Inl PropertyUndefined"
  by code_simp

lemma decodeMatching_none:
  "\<forall>entry \<in> set entries. \<not> (topic0 entry = Some eid \<and> toUpperCase (log_address entry) = addr)
   \<Longrightarrow> decodeMatching parser fragment eid addr entries = Inr []"
  by (induction entries) auto

lemma decodeMatching_some:
  "decodeMatching parser fragment eid addr entries = Inr found \<Longrightarrow> found \<noteq> [] \<Longrightarrow>
   \<exists>entry \<in> set entries. topic0 entry = Some eid \<and> toUpperCase (log_address entry) = addr"
  by (induction entries arbitrary: found) (auto split: if_splits sum.splits)

subsection \<open>No matching log (claim C10)\<close>

text \<open>
  Claim C10. When no log of the receipt has the emitter's address and the event's topic,
  \<^verbatim>\<open>all\<close> and \<^verbatim>\<open>expectOne\<close> fail with \<^verbatim>\<open>Failed to find any event\<close>; when the
  interface does not know the event, so that there is no topic to look for, both fail
  with the interface's error; and \<^verbatim>\<open>all\<close> never returns an empty list of events.
\<close>

theorem no_matching_log_fails:
  "(getEvent (contract_interface emitter) n = Inr fragment \<and>
    (\<forall>entry \<in> set (logs receipt).
        \<not> (topic0 entry = Some (topicId lib fragment) \<and>
           toUpperCase (log_address entry) = toUpperCase (contract_address emitter))) \<longrightarrow>
      all lib n emitter receipt fn = Inl FailedToFindAnyEvent \<and>
      expectOne lib n emitter receipt expected = Inl FailedToFindAnyEvent)
   \<and> (getEvent (contract_interface emitter) n = Inl e \<longrightarrow>
      all lib n emitter receipt fn = Inl e \<and> expectOne lib n emitter receipt expected = Inl e)
   \<and> (all lib n emitter receipt fn = Inr (Events args) \<longrightarrow> args \<noteq> [])"
proof (intro conjI impI)
  assume h: "getEvent (contract_interface emitter) n = Inr fragment \<and>
    (\<forall>entry \<in> set (logs receipt).
        \<not> (topic0 entry = Some (topicId lib fragment) \<and>
           toUpperCase (log_address entry) = toUpperCase (contract_address emitter)))"
  then have "decodeMatching (contract_interface emitter) fragment (topicId lib fragment)
               (toUpperCase (contract_address emitter)) (logs receipt) = Inr []"
    by (intro decodeMatching_none) simp
  with h have f: "findEventArgs lib n receipt emitter = Inl FailedToFindAnyEvent"
    by (simp add: findEventArgs_def)
  then show "all lib n emitter receipt fn = Inl FailedToFindAnyEvent"
    by (simp add: all_def)
  from f show "expectOne lib n emitter receipt expected = Inl FailedToFindAnyEvent"
    by (simp add: expectOne_def)
next
  assume "getEvent (contract_interface emitter) n = Inl e"
  then have f: "findEventArgs lib n receipt emitter = Inl e"
    by (simp add: findEventArgs_def)
  then show "all lib n emitter receipt fn = Inl e" by (simp add: all_def)
  from f show "expectOne lib n emitter receipt expected = Inl e" by (simp add: expectOne_def)
next
  assume "all lib n emitter receipt fn = Inr (Events args)"
  then have "findEventArgs lib n receipt emitter = Inr args"
    by (auto simp: all_def split: sum.splits option.splits)
  then show "args \<noteq> []"
    by (auto simp: findEventArgs_def split: sum.splits if_splits)
qed

text \<open>
  The theorem at a receipt whose only log is a \<^verbatim>\<open>Store\<close> of another address, at an
  event the interface does not know, and at a receipt with one matching log.
\<close>

theorem no_matching_log_fails_witness:
  "all exampleLibrary ''Store'' (storeContract storeResult)
     \<lparr>logs = [\<lparr>log_address = ''0xcd'', log_topics = [''Store''], log_data = ''5''\<rparr>]\<rparr>
     noTransform = Inl FailedToFindAnyEvent
   \<and> expectOne exampleLibrary ''Store'' (storeContract storeResult)
       \<lparr>logs = [\<lparr>log_address = ''0xcd'', log_topics = [''Store''], log_data = ''5''\<rparr>]\<rparr>
       JUndefined = Inl FailedToFindAnyEvent
   \<and> all exampleLibrary ''Other'' (storeContract storeResult) \<lparr>logs = [storeLog ''1'']\<rparr>
       noTransform = Inl (External ''no matching event'')
   \<and> [storeResult ''1''] \<noteq> []"
proof -
  let ?l = "\<lparr>log_address = ''0xcd'', log_topics = [''Store''], log_data = ''5''\<rparr>"
  let ?c = "storeContract storeResult"
  have g: "getEvent (contract_interface ?c) ''Store'' = Inr storeFragment" by code_simp
  have "\<not> (topic0 ?l = Some (topicId exampleLibrary storeFragment) \<and>
           toUpperCase (log_address ?l) = toUpperCase (contract_address ?c))"
    by code_simp
  then have n: "\<forall>entry \<in> set (logs \<lparr>logs = [?l]\<rparr>).
        \<not> (topic0 entry = Some (topicId exampleLibrary storeFragment) \<and>
           toUpperCase (log_address entry) = toUpperCase (contract_address ?c))"
    by simp
  note p1 = no_matching_log_fails[THEN conjunct1, rule_format, OF conjI[OF g n],
              of noTransform JUndefined]
  have u: "getEvent (contract_interface ?c) ''Other'' = Inl (External ''no matching event'')"
    by code_simp
  note p2 = no_matching_log_fails[THEN conjunct2, THEN conjunct1, rule_format, OF u,
              of exampleLibrary "\<lparr>logs = [storeLog ''1'']\<rparr>" noTransform JUndefined,
              THEN conjunct1]
  have r: "all exampleLibrary ''Store'' ?c \<lparr>logs = [storeLog ''1'']\<rparr> noTransform =
             Inr (Events [storeResult ''1''])"
    by code_simp
  note p3 = no_matching_log_fails[THEN conjunct2, THEN conjunct2, rule_format, OF r]
  from p1 p2 p3 show ?thesis by (intro conjI) (rule conjunct1, assumption, rule conjunct2)
qed

end
